theory Spec2Isabelle
  imports Complex_Main "HOL-Library.Word" "HOL-Library.Sublist"
begin

section \<open>Data model (image_frame.h)\<close>

type_synonym u8 = "8 word"
type_synonym u16 = "16 word"
type_synonym u32 = "32 word"

text \<open>\<^verbatim>\<open>struct ImageSize { std::uint16_t width; std::uint16_t height; }\<close>\<close>

record ImageSize =
  width :: u16
  height :: u16

text \<open>
  \<^verbatim>\<open>struct ImageFrame::Header\<close>. The time point is kept as a tick count. The field
  \<^verbatim>\<open>size\<close> is named \<open>size_hd\<close> here, \<open>size\<close> being a constant of HOL.
\<close>

record Header =
  timestamp :: int
  pitch :: u32
  size_hd :: ImageSize
  format :: u32

text \<open>
  \<^verbatim>\<open>struct ImageFrame { Header header; std::span<std::byte> pixels; }\<close>: the span is the
  list of the bytes it views, its length the span's size.
\<close>

record ImageFrame =
  header :: Header
  pixels :: "u8 list"

text \<open>\<^verbatim>\<open>matchesFormat\<close>: equal dimensions and equal format.\<close>

definition matchesFormat :: "Header \<Rightarrow> Header \<Rightarrow> bool" where
  "matchesFormat hd1 hd2 \<longleftrightarrow> size_hd hd1 = size_hd hd2 \<and> format hd1 = format hd2"

section \<open>Undefined behaviour as a value\<close>

text \<open>
  The converter has no error return. What can go wrong in it is undefined behaviour of
  C++: the overflow of a signed \<^verbatim>\<open>int\<close> product, and a read or a write of a byte outside
  the buffer it indexes. Each is a value of \<open>fault\<close>, and a function that can run into one
  returns \<open>fault + 'a\<close>.
\<close>

datatype fault = SignedOverflow | OutOfBoundsRead | OutOfBoundsWrite

definition and_then :: "fault + 'a \<Rightarrow> ('a \<Rightarrow> fault + 'b) \<Rightarrow> fault + 'b" where
  "and_then m k = (case m of Inl e \<Rightarrow> Inl e | Inr a \<Rightarrow> k a)"

text \<open>\<^verbatim>\<open>int\<close> is 32 bits wide on the targets of the program (Linux, LP64).\<close>

definition INT_MAX :: int where
  "INT_MAX = 2147483647"

definition INT_MIN :: int where
  "INT_MIN = - 2147483648"

text \<open>The product of two \<^verbatim>\<open>int\<close> values: undefined when it does not fit.\<close>

definition int_mul :: "int \<Rightarrow> int \<Rightarrow> fault + int" where
  "int_mul a b =
     (if INT_MIN \<le> a * b \<and> a * b \<le> INT_MAX then Inr (a * b) else Inl SignedOverflow)"

text \<open>
  \<^verbatim>\<open>width * height * 3\<close> with \<^verbatim>\<open>width\<close> and \<^verbatim>\<open>height\<close> of type \<^verbatim>\<open>std::uint16_t\<close>: both
  operands are promoted to \<^verbatim>\<open>int\<close>, the two products are \<^verbatim>\<open>int\<close> products, and the
  result is converted to \<^verbatim>\<open>std::size_t\<close> for \<^verbatim>\<open>resize\<close>.
\<close>

definition rgb_size :: "u16 \<Rightarrow> u16 \<Rightarrow> fault + nat" where
  "rgb_size w h =
     and_then (int_mul (uint w) (uint h)) (\<lambda>wh.
     and_then (int_mul wh 3) (\<lambda>n.
     Inr (nat n)))"

text \<open>
  \<^verbatim>\<open>std::vector<std::uint8_t>::resize(n)\<close>: the first \<open>n\<close> elements are kept, new
  elements are zero. The allocation is taken to succeed.
\<close>

definition resize :: "nat \<Rightarrow> u8 list \<Rightarrow> u8 list" where
  "resize n v = take n v @ replicate (n - length v) 0"

text \<open>One byte read from a buffer, one byte written into a buffer.\<close>

definition rd :: "u8 list \<Rightarrow> nat \<Rightarrow> fault + u8" where
  "rd buf i = (if i < length buf then Inr (buf ! i) else Inl OutOfBoundsRead)"

definition wr :: "u8 list \<Rightarrow> nat \<Rightarrow> u8 \<Rightarrow> fault + u8 list" where
  "wr buf i v = (if i < length buf then Inr (buf[i := v]) else Inl OutOfBoundsWrite)"

text \<open>
  \<^verbatim>\<open>std::memcpy(&dst[d], &src[s], n)\<close>: \<open>n\<close> bytes from offset \<open>s\<close> of \<open>src\<close> to offset
  \<open>d\<close> of \<open>dst\<close>. Faults are those of the bytes accessed: a copy of no byte accesses
  none.
\<close>

definition memcpy :: "u8 list \<Rightarrow> nat \<Rightarrow> u8 list \<Rightarrow> nat \<Rightarrow> nat \<Rightarrow> fault + u8 list" where
  "memcpy dst d src s n =
     (if n = 0 then Inr dst
      else if length src < s + n then Inl OutOfBoundsRead
      else if length dst < d + n then Inl OutOfBoundsWrite
      else Inr (take d dst @ take n (drop s src) @ drop (d + n) dst))"

text \<open>
  Arithmetic on \<^verbatim>\<open>std::uint32_t\<close> wraps. The loop counters \<^verbatim>\<open>y\<close> and \<^verbatim>\<open>x\<close> stay below
  \<^verbatim>\<open>height\<close> and \<^verbatim>\<open>width\<close>, which are at most 65535, so the counters and the offsets
  \<^verbatim>\<open>x * 2 + 3\<close> and \<^verbatim>\<open>(x + 1) * 3 + 2\<close> inside a row never wrap; the row offsets
  \<^verbatim>\<open>y * pitch\<close> and \<^verbatim>\<open>y * width * 3\<close> can, and are reduced here.
\<close>

definition wrap_u32 :: "nat \<Rightarrow> nat" where
  "wrap_u32 n = n mod 4294967296"

section \<open>The format converter (convertToRGB)\<close>

text \<open>
  The two format codes come from libcamera's \<^verbatim>\<open>formats.h\<close>, which is not part of the
  repository: the DRM fourcc codes \<^verbatim>\<open>'RG24'\<close> and \<^verbatim>\<open>'YUYV'\<close>.
\<close>

definition RGB888 :: u32 where
  "RGB888 = 0x34324752"

definition YUYV :: u32 where
  "YUYV = 0x56595559"

subsection \<open>Packed RGB: one memcpy per row\<close>

function rgb888_rows ::
  "nat \<Rightarrow> nat \<Rightarrow> nat \<Rightarrow> u8 list \<Rightarrow> nat \<Rightarrow> u8 list \<Rightarrow> fault + u8 list" where
  "rgb888_rows w h p src y dst =
     (if y < h then
        (case memcpy dst (wrap_u32 (y * w * 3)) src (wrap_u32 (y * p)) (w * 3) of
           Inl e \<Rightarrow> Inl e
         | Inr dst' \<Rightarrow> rgb888_rows w h p src (y + 1) dst')
      else Inr dst)"
  by pat_completeness auto
termination
  by (relation "measure (\<lambda>(w, h, p, src, y, dst). h - y)") auto

subsection \<open>YUYV: two pixels from four bytes\<close>

text \<open>\<^verbatim>\<open>std::clamp(v, lo, hi)\<close>.\<close>

definition clamp :: "int \<Rightarrow> int \<Rightarrow> int \<Rightarrow> int" where
  "clamp v lo hi = (if v < lo then lo else if hi < v then hi else v)"

text \<open>
  The three channel values for \<open>c = Y - 16\<close>, \<open>d = U - 128\<close>, \<open>e = V - 128\<close>. The
  shift is the arithmetic one of \<^verbatim>\<open>int\<close>, and the store into \<^verbatim>\<open>std::uint8_t\<close> keeps
  the low eight bits.
\<close>

definition red :: "int \<Rightarrow> int \<Rightarrow> u8" where
  "red c e = word_of_int (clamp (drop_bit 8 (298 * c + 409 * e + 128)) 0 255)"

definition green :: "int \<Rightarrow> int \<Rightarrow> int \<Rightarrow> u8" where
  "green c d e = word_of_int (clamp (drop_bit 8 (298 * c - 100 * d - 208 * e + 128)) 0 255)"

definition blue :: "int \<Rightarrow> int \<Rightarrow> u8" where
  "blue c d = word_of_int (clamp (drop_bit 8 (298 * c + 516 * d + 128)) 0 255)"

text \<open>
  The body of the inner loop at column \<open>x\<close>: \<open>row\<close> is the offset of \<^verbatim>\<open>row\<close> in the source,
  \<open>rgb_row\<close> the offset of \<^verbatim>\<open>rgb_row\<close> in the destination.
\<close>

definition yuyv_pair :: "u8 list \<Rightarrow> nat \<Rightarrow> nat \<Rightarrow> nat \<Rightarrow> u8 list \<Rightarrow> fault + u8 list" where
  "yuyv_pair src row rgb_row x dst =
     and_then (rd src (row + x * 2)) (\<lambda>y0.
     and_then (rd src (row + x * 2 + 1)) (\<lambda>u.
     and_then (rd src (row + x * 2 + 2)) (\<lambda>y1.
     and_then (rd src (row + x * 2 + 3)) (\<lambda>v.
       let c0 = uint y0 - 16; c1 = uint y1 - 16; d = uint u - 128; e = uint v - 128 in
       and_then (wr dst (rgb_row + x * 3) (red c0 e)) (\<lambda>dst.
       and_then (wr dst (rgb_row + x * 3 + 1) (green c0 d e)) (\<lambda>dst.
       and_then (wr dst (rgb_row + x * 3 + 2) (blue c0 d)) (\<lambda>dst.
       and_then (wr dst (rgb_row + (x + 1) * 3) (red c1 e)) (\<lambda>dst.
       and_then (wr dst (rgb_row + (x + 1) * 3 + 1) (green c1 d e)) (\<lambda>dst.
       wr dst (rgb_row + (x + 1) * 3 + 2) (blue c1 d))))))))))"

function yuyv_row ::
  "nat \<Rightarrow> u8 list \<Rightarrow> nat \<Rightarrow> nat \<Rightarrow> nat \<Rightarrow> u8 list \<Rightarrow> fault + u8 list" where
  "yuyv_row w src row rgb_row x dst =
     (if x < w then
        (case yuyv_pair src row rgb_row x dst of
           Inl e \<Rightarrow> Inl e
         | Inr dst' \<Rightarrow> yuyv_row w src row rgb_row (x + 2) dst')
      else Inr dst)"
  by pat_completeness auto
termination
  by (relation "measure (\<lambda>(w, src, row, rgb_row, x, dst). w - x)") auto

function yuyv_rows ::
  "nat \<Rightarrow> nat \<Rightarrow> nat \<Rightarrow> u8 list \<Rightarrow> nat \<Rightarrow> u8 list \<Rightarrow> fault + u8 list" where
  "yuyv_rows w h p src y dst =
     (if y < h then
        (case yuyv_row w src (wrap_u32 (y * p)) (wrap_u32 (y * w * 3)) 0 dst of
           Inl e \<Rightarrow> Inl e
         | Inr dst' \<Rightarrow> yuyv_rows w h p src (y + 1) dst')
      else Inr dst)"
  by pat_completeness auto
termination
  by (relation "measure (\<lambda>(w, h, p, src, y, dst). h - y)") auto

subsection \<open>Any other format: the error pattern\<close>

definition put_magenta :: "u8 list \<Rightarrow> nat \<Rightarrow> fault + u8 list" where
  "put_magenta dst i =
     and_then (wr dst i 255) (\<lambda>dst.
     and_then (wr dst (i + 1) 0) (\<lambda>dst.
     wr dst (i + 2) 255))"

lemma wr_length: "wr buf i v = Inr buf' \<Longrightarrow> length buf' = length buf"
  by (auto simp: wr_def split: if_splits)

lemma put_magenta_length: "put_magenta dst i = Inr dst' \<Longrightarrow> length dst' = length dst"
  by (auto simp: put_magenta_def and_then_def wr_def split: if_splits sum.splits)

function fill_magenta :: "nat \<Rightarrow> u8 list \<Rightarrow> fault + u8 list" where
  "fill_magenta i dst =
     (if i < length dst then
        (case put_magenta dst i of
           Inl e \<Rightarrow> Inl e
         | Inr dst' \<Rightarrow> fill_magenta (i + 3) dst')
      else Inr dst)"
  by pat_completeness auto
termination
  by (relation "measure (\<lambda>(i, dst). length dst - i)") (auto dest: put_magenta_length)

text \<open>
  The line \<^verbatim>\<open>std::println\<close> writes to \<^verbatim>\<open>stderr\<close>; \<^verbatim>\<open>{}\<close> prints the format code in
  decimal. (The older copy of the function prints it with \<^verbatim>\<open>%#x\<close>; the two copies agree in
  everything else that is modelled here.)
\<close>

definition digit :: "nat \<Rightarrow> char" where
  "digit n = ''0123456789'' ! n"

function decimal :: "nat \<Rightarrow> string" where
  "decimal n = (if n < 10 then [digit n] else decimal (n div 10) @ [digit (n mod 10)])"
  by pat_completeness auto
termination
  by (relation "measure id") auto

definition unsupported_format_warning :: "u32 \<Rightarrow> string" where
  "unsupported_format_warning fmt =
     ''Warning: Unsupported pixel format ('' @ decimal (unat fmt) @
     ''), displaying error pattern''"

subsection \<open>convertToRGB\<close>

text \<open>
  The result is the buffer \<^verbatim>\<open>rgb_data\<close> as the call leaves it, together with the lines
  the call wrote to \<^verbatim>\<open>stderr\<close>.
\<close>

definition convertToRGB :: "ImageFrame \<Rightarrow> u8 list \<Rightarrow> fault + (u8 list \<times> string list)" where
  "convertToRGB frame rgb_data =
     (let w = width (size_hd (header frame));
          h = height (size_hd (header frame));
          p = pitch (header frame);
          src = pixels frame
      in and_then (rgb_size w h) (\<lambda>n.
           let rgb = resize n rgb_data;
               fmt = format (header frame)
           in if fmt = RGB888 then
                and_then (rgb888_rows (unat w) (unat h) (unat p) src 0 rgb) (\<lambda>out. Inr (out, []))
              else if fmt = YUYV then
                and_then (yuyv_rows (unat w) (unat h) (unat p) src 0 rgb) (\<lambda>out. Inr (out, []))
              else
                and_then (fill_magenta 0 rgb)
                  (\<lambda>out. Inr (out, [unsupported_format_warning fmt]))))"

section \<open>The display (Display::Impl)\<close>

text \<open>
  \<^verbatim>\<open>float\<close> is a type parameter \<open>'f\<close>, and the operations on it that the program uses
  are the fields of a record every function takes: the quotient, the comparison \<^verbatim>\<open>>\<close>, the
  negation, and the conversion of an integer. The literals \<^verbatim>\<open>0.0F\<close> and \<^verbatim>\<open>1.0F\<close> are the
  conversions of 0 and 1.
\<close>

record 'f float_ops =
  fdiv :: "'f \<Rightarrow> 'f \<Rightarrow> 'f"
  fgt :: "'f \<Rightarrow> 'f \<Rightarrow> bool"
  fneg :: "'f \<Rightarrow> 'f"
  float_of_int :: "int \<Rightarrow> 'f"

text \<open>
  The calls into GLFW and OpenGL that change something, with the arguments that vary. A
  pointer (\<^verbatim>\<open>GLFWwindow*\<close>) is an address, \<^verbatim>\<open>nullptr\<close> the address 0.
\<close>

datatype 'f gl_call =
    GlViewport int int int int
  | GlClearColor 'f 'f 'f 'f
  | GlClear
  | GlBindBuffer u32
  | GlBufferSubData nat "'f list"
  | GlUseProgram u32
  | GlActiveTexture nat
  | GlBindTexture u32
  | GlTexImage2D u16 u16 "u8 list"
  | GlBindVertexArray u32
  | GlDrawArrays nat nat
  | GlfwSwapBuffers nat
  | GlDeleteTextures u32
  | GlDeleteVertexArrays u32
  | GlDeleteBuffers u32
  | GlDeleteProgram u32
  | GlfwDestroyWindow nat
  | GlfwTerminate

text \<open>\<^verbatim>\<open>struct Display::Impl\<close>, the data members.\<close>

record 'f Impl =
  window :: nat
  texture_id :: u32
  current_frame_header :: Header
  rgb_buffer :: "u8 list"
  shader_program :: u32
  vao :: u32
  vbo :: u32
  image_aspect_ratio :: 'f

text \<open>
  What lies outside the object: the size \<^verbatim>\<open>glfwGetFramebufferSize\<close> reports, the calls
  made so far, oldest first, and the lines written to \<^verbatim>\<open>stderr\<close>.
\<close>

record 'f world =
  framebuffer :: "int \<times> int"
  calls :: "'f gl_call list"
  stderr_lines :: "string list"

definition issue :: "'f gl_call list \<Rightarrow> 'f world \<Rightarrow> 'f world" where
  "issue cs g = g\<lparr>calls := calls g @ cs\<rparr>"

definition uploadTexture :: "'f Impl \<Rightarrow> u8 list \<Rightarrow> ImageSize \<Rightarrow> 'f world \<Rightarrow> 'f world" where
  "uploadTexture s rgb_data sz g =
     issue [GlBindTexture (texture_id s),
            GlTexImage2D (width sz) (height sz) rgb_data,
            GlBindTexture 0] g"

text \<open>The two half-extents \<^verbatim>\<open>quad_width\<close> and \<^verbatim>\<open>quad_height\<close>.\<close>

definition letterbox :: "'f float_ops \<Rightarrow> 'f \<Rightarrow> 'f \<Rightarrow> 'f \<times> 'f" where
  "letterbox ops window_aspect image_aspect =
     (if fgt ops window_aspect image_aspect
      then (fdiv ops image_aspect window_aspect, float_of_int ops 1)
      else (float_of_int ops 1, fdiv ops window_aspect image_aspect))"

definition quad_vertices :: "'f float_ops \<Rightarrow> 'f \<Rightarrow> 'f \<Rightarrow> 'f list" where
  "quad_vertices ops quad_width quad_height =
     (let zero = float_of_int ops 0; one = float_of_int ops 1 in
      [fneg ops quad_width, quad_height, zero, zero,
       fneg ops quad_width, fneg ops quad_height, zero, one,
       quad_width, fneg ops quad_height, one, one,
       quad_width, quad_height, one, zero])"

definition updateQuadForLetterbox :: "'f float_ops \<Rightarrow> 'f Impl \<Rightarrow> 'f world \<Rightarrow> 'f world" where
  "updateQuadForLetterbox ops s g =
     (let (window_width, window_height) = framebuffer g in
      if window_width = 0 \<or> window_height = 0 then g
      else
        let window_aspect =
              fdiv ops (float_of_int ops window_width) (float_of_int ops window_height);
            (quad_width, quad_height) = letterbox ops window_aspect (image_aspect_ratio s)
        in issue [GlBindBuffer (vbo s),
                  GlBufferSubData 0 (quad_vertices ops quad_width quad_height),
                  GlBindBuffer 0] g)"

definition render :: "'f float_ops \<Rightarrow> 'f Impl \<Rightarrow> 'f world \<Rightarrow> 'f world" where
  "render ops s g =
     (let (window_width, window_height) = framebuffer g;
          zero = float_of_int ops 0; one = float_of_int ops 1;
          g = issue [GlViewport 0 0 window_width window_height,
                     GlClearColor zero zero zero one,
                     GlClear] g;
          g = updateQuadForLetterbox ops s g
      in issue [GlUseProgram (shader_program s),
                GlActiveTexture 0,
                GlBindTexture (texture_id s),
                GlBindVertexArray (vao s),
                GlDrawArrays 0 4,
                GlBindVertexArray 0,
                GlfwSwapBuffers (window s)] g)"

text \<open>\<^verbatim>\<open>cleanup\<close>: five guarded releases, then \<^verbatim>\<open>glfwTerminate\<close>.\<close>

definition cleanup :: "'f Impl \<Rightarrow> 'f world \<Rightarrow> 'f Impl \<times> 'f world" where
  "cleanup s g =
     (let (s, g) = (if texture_id s \<noteq> 0
                    then (s\<lparr>texture_id := 0\<rparr>, issue [GlDeleteTextures (texture_id s)] g)
                    else (s, g));
          (s, g) = (if vao s \<noteq> 0
                    then (s\<lparr>vao := 0\<rparr>, issue [GlDeleteVertexArrays (vao s)] g)
                    else (s, g));
          (s, g) = (if vbo s \<noteq> 0
                    then (s\<lparr>vbo := 0\<rparr>, issue [GlDeleteBuffers (vbo s)] g)
                    else (s, g));
          (s, g) = (if shader_program s \<noteq> 0
                    then (s\<lparr>shader_program := 0\<rparr>, issue [GlDeleteProgram (shader_program s)] g)
                    else (s, g));
          (s, g) = (if window s \<noteq> 0
                    then (s\<lparr>window := 0\<rparr>, issue [GlfwDestroyWindow (window s)] g)
                    else (s, g))
      in (s, issue [GlfwTerminate] g))"

text \<open>
  \<^verbatim>\<open>Display::update\<close>. Undefined behaviour in the conversion is the result of the call;
  the calls after the conversion have none of their own.
\<close>

definition update ::
  "'f float_ops \<Rightarrow> ImageFrame \<Rightarrow> 'f Impl \<Rightarrow> 'f world \<Rightarrow> fault + ('f Impl \<times> 'f world)" where
  "update ops frame s g =
     and_then (convertToRGB frame (rgb_buffer s)) (\<lambda>(rgb, lines).
       let s = s\<lparr>rgb_buffer := rgb\<rparr>;
           g = g\<lparr>stderr_lines := stderr_lines g @ lines\<rparr>;
           g = uploadTexture s (rgb_buffer s) (size_hd (header frame)) g;
           sz = size_hd (header frame);
           s = (if width sz > 0 \<and> height sz > 0
                then s\<lparr>image_aspect_ratio :=
                       fdiv ops (float_of_int ops (uint (width sz)))
                                (float_of_int ops (uint (height sz)))\<rparr>
                else s);
           s = s\<lparr>current_frame_header := header frame\<rparr>
       in Inr (s, render ops s g))"

text \<open>
  Exact rational arithmetic as an instance of the operations, for closed examples only:
  every theorem below holds for every record of operations.
\<close>

definition exact_ops :: "rat float_ops" where
  "exact_ops = \<lparr>fdiv = (/), fgt = (\<lambda>a b. a > b), fneg = uminus, float_of_int = of_int\<rparr>"

section \<open>Notions used to state the properties\<close>

text \<open>
  The channel \<open>k\<close> (0 red, 1 green, 2 blue) of pixel \<open>j\<close> of a YUYV row that starts at
  offset \<open>row\<close> of the source: the luma byte of pixel \<open>j\<close> and the two chroma bytes of
  its pair.
\<close>

definition yuyv_px :: "u8 list \<Rightarrow> nat \<Rightarrow> nat \<Rightarrow> nat \<Rightarrow> u8" where
  "yuyv_px src row j k =
     (let c = uint (src ! (row + 2 * j)) - 16;
          d = uint (src ! (row + 4 * (j div 2) + 1)) - 128;
          e = uint (src ! (row + 4 * (j div 2) + 3)) - 128
      in if k = 0 then red c e else if k = 1 then green c d e else blue c d)"

text \<open>Six consecutive elements of a list replaced, as one pass of the inner loop does.\<close>

definition upd6 :: "'a list \<Rightarrow> nat \<Rightarrow> 'a \<Rightarrow> 'a \<Rightarrow> 'a \<Rightarrow> 'a \<Rightarrow> 'a \<Rightarrow> 'a \<Rightarrow> 'a list" where
  "upd6 xs b a0 a1 a2 a3 a4 a5 =
     xs[b := a0, b + 1 := a1, b + 2 := a2, b + 3 := a3, b + 4 := a4, b + 5 := a5]"

text \<open>The vertex data a sequence of calls has written, oldest first.\<close>

definition vertex_data_of :: "'f gl_call \<Rightarrow> 'f list option" where
  "vertex_data_of c = (case c of GlBufferSubData off v \<Rightarrow> Some v | _ \<Rightarrow> None)"

definition vertex_uploads :: "'f gl_call list \<Rightarrow> 'f list list" where
  "vertex_uploads cs = List.map_filter vertex_data_of cs"

section \<open>The loops of the converter\<close>

text \<open>
  The recursive equations of the loops are applied by hand: as rewrite rules they would
  unfold without end.
\<close>

declare yuyv_row.simps [simp del] yuyv_rows.simps [simp del] rgb888_rows.simps [simp del]
  fill_magenta.simps [simp del] decimal.simps [simp del]

lemma int_mul_nat:
  "int_mul (int a) (int b) =
     (if a * b \<le> 2147483647 then Inr (int (a * b)) else Inl SignedOverflow)"
proof -
  define n where "n = a * b"
  have "int a * int b = int n" by (simp add: n_def)
  then show ?thesis
    unfolding int_mul_def INT_MAX_def INT_MIN_def n_def[symmetric] by auto
qed

lemma rgb_size_eq:
  "rgb_size w h =
     (if 3 * unat w * unat h \<le> 2147483647 then Inr (3 * unat w * unat h)
      else Inl SignedOverflow)"
proof -
  define n where "n = unat w * unat h"
  have three: "(3::int) = int 3" by simp
  have m: "3 * unat w * unat h = n * 3" by (simp add: n_def)
  have "rgb_size w h =
          and_then (int_mul (int (unat w)) (int (unat h))) (\<lambda>wh.
          and_then (int_mul wh (int 3)) (\<lambda>n. Inr (nat n)))"
    by (simp add: rgb_size_def)
  also have "\<dots> = (if n * 3 \<le> 2147483647 then Inr (n * 3) else Inl SignedOverflow)"
    unfolding int_mul_nat n_def[symmetric] and_then_def
    using int_mul_nat[of n 3] by (cases "n \<le> 2147483647") (simp_all add: nat_mult_distrib)
  finally show ?thesis by (simp only: m)
qed

lemma resize_length: "length (resize n v) = n"
  by (simp add: resize_def)

lemma yuyv_pair_eq:
  "yuyv_pair src row rr x dst =
     (if \<not> row + x * 2 + 3 < length src then Inl OutOfBoundsRead
      else if \<not> rr + x * 3 + 5 < length dst then Inl OutOfBoundsWrite
      else
        let c0 = uint (src ! (row + x * 2)) - 16;
            c1 = uint (src ! (row + x * 2 + 2)) - 16;
            d = uint (src ! (row + x * 2 + 1)) - 128;
            e = uint (src ! (row + x * 2 + 3)) - 128
        in Inr (dst[rr + x * 3 := red c0 e, rr + x * 3 + 1 := green c0 d e,
                    rr + x * 3 + 2 := blue c0 d, rr + x * 3 + 3 := red c1 e,
                    rr + x * 3 + 4 := green c1 d e, rr + x * 3 + 5 := blue c1 d]))"
  by (simp add: yuyv_pair_def and_then_def rd_def wr_def Let_def ac_simps)

lemma upd6_length: "length (upd6 xs b a0 a1 a2 a3 a4 a5) = length xs"
  by (simp add: upd6_def)

lemma upd6_outside:
  "i < b \<or> b + 6 \<le> i \<Longrightarrow> upd6 xs b a0 a1 a2 a3 a4 a5 ! i = xs ! i"
  by (auto simp: upd6_def)

lemma upd6_inside:
  assumes "b + 5 < length xs"
  shows "upd6 xs b a0 a1 a2 a3 a4 a5 ! b = a0"
    "upd6 xs b a0 a1 a2 a3 a4 a5 ! (b + 1) = a1"
    "upd6 xs b a0 a1 a2 a3 a4 a5 ! (b + 2) = a2"
    "upd6 xs b a0 a1 a2 a3 a4 a5 ! (b + 3) = a3"
    "upd6 xs b a0 a1 a2 a3 a4 a5 ! (b + 4) = a4"
    "upd6 xs b a0 a1 a2 a3 a4 a5 ! (b + 5) = a5"
  using assms by (simp_all add: upd6_def)

lemma upd6_nth:
  assumes "b + 5 < length xs" and "k < 6"
  shows "upd6 xs b a0 a1 a2 a3 a4 a5 ! (b + k) = [a0, a1, a2, a3, a4, a5] ! k"
proof -
  from \<open>k < 6\<close> consider "k = 0" | "k = 1" | "k = 2" | "k = 3" | "k = 4" | "k = 5"
    by linarith
  then show ?thesis
  proof cases
    case 1 then show ?thesis using upd6_inside(1)[OF assms(1)] by simp
  next
    case 2 then show ?thesis using upd6_inside(2)[OF assms(1)] by simp
  next
    case 3 then show ?thesis using upd6_inside(3)[OF assms(1)] by simp
  next
    case 4 then show ?thesis using upd6_inside(4)[OF assms(1)] by simp
  next
    case 5 then show ?thesis using upd6_inside(5)[OF assms(1)] by simp
  next
    case 6 then show ?thesis using upd6_inside(6)[OF assms(1)] by simp
  qed
qed

lemma yuyv_pair_px:
  assumes p: "yuyv_pair src row rr x dst = Inr d1" and ex: "even x"
  shows "row + 2 * x + 3 < length src" "rr + 3 * x + 5 < length dst"
    "length d1 = length dst"
    "\<And>i. i < rr + 3 * x \<or> rr + 3 * x + 6 \<le> i \<Longrightarrow> d1 ! i = dst ! i"
    "\<And>k. k < 3 \<Longrightarrow> d1 ! (rr + 3 * x + k) = yuyv_px src row x k"
    "\<And>k. k < 3 \<Longrightarrow> d1 ! (rr + 3 * (x + 1) + k) = yuyv_px src row (x + 1) k"
proof -
  define b where "b = rr + 3 * x"
  from p show a: "row + 2 * x + 3 < length src" and b5: "rr + 3 * x + 5 < length dst"
    by (auto simp: yuyv_pair_eq mult.commute split: if_splits)
  from ex obtain m where m: "x = 2 * m" by (auto elim: evenE)
  have h1: "4 * (x div 2) = 2 * x" and h2: "4 * ((x + 1) div 2) = 2 * x"
    by (simp_all add: m)
  from p a b5 have d1: "d1 = upd6 dst b (yuyv_px src row x 0) (yuyv_px src row x 1)
        (yuyv_px src row x 2) (yuyv_px src row (x + 1) 0) (yuyv_px src row (x + 1) 1)
        (yuyv_px src row (x + 1) 2)"
    unfolding yuyv_px_def h1 h2 upd6_def b_def
    by (simp add: yuyv_pair_eq mult.commute Let_def ac_simps)
  have bl: "b + 5 < length dst" using b5 by (simp add: b_def)
  show "length d1 = length dst" by (simp add: d1 upd6_length)
  show "\<And>i. i < rr + 3 * x \<or> rr + 3 * x + 6 \<le> i \<Longrightarrow> d1 ! i = dst ! i"
    unfolding b_def[symmetric] d1 by (rule upd6_outside)
  show "\<And>k. k < 3 \<Longrightarrow> d1 ! (rr + 3 * x + k) = yuyv_px src row x k"
  proof -
    fix k :: nat assume k: "k < 3"
    then have "d1 ! (b + k) = [yuyv_px src row x 0, yuyv_px src row x 1,
        yuyv_px src row x 2, yuyv_px src row (x + 1) 0, yuyv_px src row (x + 1) 1,
        yuyv_px src row (x + 1) 2] ! k"
      unfolding d1 by (intro upd6_nth[OF bl]) simp
    moreover from k have "k = 0 \<or> k = 1 \<or> k = 2" by linarith
    ultimately show "d1 ! (rr + 3 * x + k) = yuyv_px src row x k"
      unfolding b_def by (elim disjE) simp_all
  qed
  show "\<And>k. k < 3 \<Longrightarrow> d1 ! (rr + 3 * (x + 1) + k) = yuyv_px src row (x + 1) k"
  proof -
    fix k :: nat assume k: "k < 3"
    have e: "rr + 3 * (x + 1) + k = b + (3 + k)" by (simp add: b_def)
    from k have "d1 ! (b + (3 + k)) = [yuyv_px src row x 0, yuyv_px src row x 1,
        yuyv_px src row x 2, yuyv_px src row (x + 1) 0, yuyv_px src row (x + 1) 1,
        yuyv_px src row (x + 1) 2] ! (3 + k)"
      unfolding d1 by (intro upd6_nth[OF bl]) simp
    moreover from k have "k = 0 \<or> k = 1 \<or> k = 2" by linarith
    ultimately show "d1 ! (rr + 3 * (x + 1) + k) = yuyv_px src row (x + 1) k"
      unfolding e by (elim disjE) simp_all
  qed
qed

lemma yuyv_row_Inr:
  assumes "yuyv_row w src row rr x dst = Inr out" "even x" "even w"
  shows "length out = length dst \<and>
     (\<forall>i. i < rr + 3 * x \<or> rr + 3 * w \<le> i \<longrightarrow> out ! i = dst ! i) \<and>
     (\<forall>j k. x \<le> j \<and> j < w \<and> k < 3 \<longrightarrow>
        row + 4 * (j div 2) + 3 < length src \<and> rr + 3 * j + k < length dst \<and>
        out ! (rr + 3 * j + k) = yuyv_px src row j k)"
  using assms
proof (induction w src row rr x dst arbitrary: out rule: yuyv_row.induct)
  case (1 w src row rr x dst)
  show ?case
  proof (cases "x < w")
    case False
    then have "out = dst" using "1.prems"(1) by (simp add: yuyv_row.simps)
    with False show ?thesis by auto
  next
    case True
    from "1.prems"(1) True obtain d1 where p: "yuyv_pair src row rr x dst = Inr d1"
      and r: "yuyv_row w src row rr (x + 2) d1 = Inr out"
      by (subst (asm) yuyv_row.simps) (auto split: sum.splits)
    note px = yuyv_pair_px[OF p "1.prems"(2)]
    have x2: "x + 2 \<le> w" using True "1.prems"(2,3) by presburger
    have ev: "even (x + 2)" using "1.prems"(2) by simp
    have h4: "4 * (x div 2) = 2 * x" "4 * ((x + 1) div 2) = 2 * x"
      using "1.prems"(2) by (auto elim!: evenE)
    note ih = "1.IH"[OF True p r ev "1.prems"(3)]
    from ih have len: "length out = length d1"
      and fr: "\<And>i. i < rr + 3 * (x + 2) \<or> rr + 3 * w \<le> i \<Longrightarrow> out ! i = d1 ! i"
      and vals: "\<And>j k. x + 2 \<le> j \<Longrightarrow> j < w \<Longrightarrow> k < 3 \<Longrightarrow>
        row + 4 * (j div 2) + 3 < length src \<and> rr + 3 * j + k < length d1 \<and>
        out ! (rr + 3 * j + k) = yuyv_px src row j k"
      by blast+
    have A: "length out = length dst" using len px(3) by simp
    have B: "out ! i = dst ! i" if "i < rr + 3 * x \<or> rr + 3 * w \<le> i" for i
    proof -
      have "out ! i = d1 ! i" using that by (intro fr) auto
      also have "d1 ! i = dst ! i" using that x2 by (intro px(4)) auto
      finally show ?thesis .
    qed
    have C: "row + 4 * (j div 2) + 3 < length src \<and> rr + 3 * j + k < length dst \<and>
        out ! (rr + 3 * j + k) = yuyv_px src row j k"
      if "x \<le> j" "j < w" "k < 3" for j k
    proof -
      have "j = x \<or> j = x + 1 \<or> x + 2 \<le> j" using that(1) by linarith
      then consider (a) "j = x" | (b) "j = x + 1" | (c) "x + 2 \<le> j" by blast
      then show ?thesis
      proof cases
        case a
        have "out ! (rr + 3 * x + k) = d1 ! (rr + 3 * x + k)"
          using that(3) by (intro fr) auto
        then show ?thesis using px(1,2) px(5)[OF that(3)] that(3) a h4 by simp
      next
        case b
        have "out ! (rr + 3 * (x + 1) + k) = d1 ! (rr + 3 * (x + 1) + k)"
          using that(3) by (intro fr) auto
        then show ?thesis using px(1,2) px(6)[OF that(3)] that(3) b h4 by simp
      next
        case c
        then show ?thesis using vals[OF c that(2,3)] px(3) by simp
      qed
    qed
    from A B C show ?thesis by blast
  qed
qed

lemma wrap_u32_id: "n < 4294967296 \<Longrightarrow> wrap_u32 n = n"
  by (simp add: wrap_u32_def)

lemma wrap_u32_le: "wrap_u32 n \<le> n"
  by (simp add: wrap_u32_def)

lemma row_offset_no_wrap:
  assumes "y < h" "3 * w * h \<le> 4294967296"
  shows "wrap_u32 (y * w * 3) = 3 * w * y"
proof (cases "w = 0")
  case True
  then show ?thesis by (simp add: wrap_u32_def)
next
  case False
  have "Suc y * w \<le> h * w" using assms(1) by (intro mult_le_mono1) simp
  then have "y * w + w \<le> h * w" by simp
  moreover have "3 * w * h = 3 * (h * w)" "y * w * 3 = 3 * (y * w)" by simp_all
  ultimately have "y * w * 3 < 4294967296" using assms(2) False by linarith
  then show ?thesis by (simp add: wrap_u32_id mult.commute mult.left_commute)
qed

lemma yuyv_rows_Inr:
  assumes "yuyv_rows w h p src y dst = Inr out" "even w" "3 * w * h \<le> 4294967296"
  shows "length out = length dst \<and>
     (\<forall>i. i < 3 * w * y \<longrightarrow> out ! i = dst ! i) \<and>
     (\<forall>y' j k. y \<le> y' \<and> y' < h \<and> j < w \<and> k < 3 \<longrightarrow>
        wrap_u32 (y' * p) + 4 * (j div 2) + 3 < length src \<and>
        3 * w * y' + 3 * j + k < length dst \<and>
        out ! (3 * w * y' + 3 * j + k) = yuyv_px src (wrap_u32 (y' * p)) j k)"
  using assms
proof (induction w h p src y dst arbitrary: out rule: yuyv_rows.induct)
  case (1 w h p src y dst)
  show ?case
  proof (cases "y < h")
    case False
    then have "out = dst" using "1.prems"(1) by (simp add: yuyv_rows.simps)
    with False show ?thesis by auto
  next
    case True
    define r where "r = 3 * w * y"
    have rr: "wrap_u32 (y * w * 3) = r"
      unfolding r_def using True "1.prems"(3) by (rule row_offset_no_wrap)
    have nxt: "3 * w * (y + 1) = r + 3 * w" by (simp add: r_def algebra_simps)
    from "1.prems"(1) True obtain d1
      where p: "yuyv_row w src (wrap_u32 (y * p)) r 0 dst = Inr d1"
        and r: "yuyv_rows w h p src (y + 1) d1 = Inr out"
      unfolding rr[symmetric]
      by (subst (asm) yuyv_rows.simps) (auto split: sum.splits)
    from yuyv_row_Inr[OF p _ "1.prems"(2)]
    have len1: "length d1 = length dst"
      and fr1: "\<And>i. i < r \<or> r + 3 * w \<le> i \<Longrightarrow> d1 ! i = dst ! i"
      and v1: "\<And>j k. j < w \<Longrightarrow> k < 3 \<Longrightarrow>
        wrap_u32 (y * p) + 4 * (j div 2) + 3 < length src \<and> r + 3 * j + k < length dst \<and>
        d1 ! (r + 3 * j + k) = yuyv_px src (wrap_u32 (y * p)) j k"
      by auto
    from "1.IH"[OF True p[unfolded rr[symmetric]] r "1.prems"(2,3)]
    have len: "length out = length d1"
      and fr: "\<And>i. i < r + 3 * w \<Longrightarrow> out ! i = d1 ! i"
      and vals: "\<And>y' j k. y + 1 \<le> y' \<Longrightarrow> y' < h \<Longrightarrow> j < w \<Longrightarrow> k < 3 \<Longrightarrow>
        wrap_u32 (y' * p) + 4 * (j div 2) + 3 < length src \<and>
        3 * w * y' + 3 * j + k < length d1 \<and>
        out ! (3 * w * y' + 3 * j + k) = yuyv_px src (wrap_u32 (y' * p)) j k"
      unfolding nxt by blast+
    have A: "length out = length dst" using len len1 by simp
    have B: "out ! i = dst ! i" if "i < 3 * w * y" for i
      using that fr[of i] fr1[of i] by (simp add: r_def)
    have C: "wrap_u32 (y' * p) + 4 * (j div 2) + 3 < length src \<and>
        3 * w * y' + 3 * j + k < length dst \<and>
        out ! (3 * w * y' + 3 * j + k) = yuyv_px src (wrap_u32 (y' * p)) j k"
      if "y \<le> y'" "y' < h" "j < w" "k < 3" for y' j k
    proof (cases "y' = y")
      case True
      have "out ! (r + 3 * j + k) = d1 ! (r + 3 * j + k)"
        using that(3,4) by (intro fr) linarith
      then show ?thesis using v1[OF that(3,4)] True by (simp add: r_def)
    next
      case False
      then have "y + 1 \<le> y'" using that(1) by simp
      from vals[OF this that(2,3,4)] show ?thesis by (simp add: len1)
    qed
    from A B C show ?thesis by blast
  qed
qed

lemma convertToRGB_YUYV:
  assumes "format (header f) = YUYV" "convertToRGB f buf = Inr (out, msgs)"
  shows "3 * unat (width (size_hd (header f))) * unat (height (size_hd (header f))) \<le> 2147483647"
    "msgs = []"
    "yuyv_rows (unat (width (size_hd (header f)))) (unat (height (size_hd (header f))))
       (unat (pitch (header f))) (pixels f) 0
       (resize (3 * unat (width (size_hd (header f))) * unat (height (size_hd (header f)))) buf)
     = Inr out"
  using assms
  by (auto simp: convertToRGB_def rgb_size_eq and_then_def Let_def YUYV_def RGB888_def
      split: if_splits sum.splits)

lemma uint_clamp_byte:
  "uint (word_of_int (clamp (drop_bit 8 v) 0 255) :: u8) = max 0 (min 255 (v div 256))"
proof -
  have "0 \<le> clamp (drop_bit 8 v) 0 255" "clamp (drop_bit 8 v) 0 255 < 256"
    by (simp_all add: clamp_def)
  then have "uint (word_of_int (clamp (drop_bit 8 v) 0 255) :: u8) = clamp (drop_bit 8 v) 0 255"
    by (simp add: uint_word_of_int take_bit_eq_mod)
  then show ?thesis by (simp add: clamp_def drop_bit_eq_div max_def min_def)
qed

lemma memcpy_Inr:
  assumes "memcpy dst d src s n = Inr d1" "0 < n"
  shows "s + n \<le> length src" "d + n \<le> length dst" "length d1 = length dst"
    "\<And>i. i < d \<Longrightarrow> d1 ! i = dst ! i"
    "\<And>k. k < n \<Longrightarrow> d1 ! (d + k) = src ! (s + k)"
proof -
  from assms show a: "s + n \<le> length src" and b: "d + n \<le> length dst"
    by (auto simp: memcpy_def split: if_splits)
  from assms a b have d1: "d1 = take d dst @ take n (drop s src) @ drop (d + n) dst"
    by (auto simp: memcpy_def split: if_splits)
  show "length d1 = length dst" using a b by (simp add: d1)
  show "\<And>i. i < d \<Longrightarrow> d1 ! i = dst ! i" using b by (simp add: d1 nth_append)
  show "\<And>k. k < n \<Longrightarrow> d1 ! (d + k) = src ! (s + k)"
    using a b by (simp add: d1 nth_append)
qed

lemma memcpy_zero: "memcpy dst d src s 0 = Inr dst"
  by (simp add: memcpy_def)

lemma rgb888_rows_Inr:
  assumes "rgb888_rows w h p src y dst = Inr out" "3 * w * h \<le> 4294967296"
  shows "length out = length dst \<and>
     (\<forall>i. i < 3 * w * y \<longrightarrow> out ! i = dst ! i) \<and>
     (\<forall>y' k. y \<le> y' \<and> y' < h \<and> k < 3 * w \<longrightarrow>
        wrap_u32 (y' * p) + 3 * w \<le> length src \<and> 3 * w * y' + 3 * w \<le> length dst \<and>
        out ! (3 * w * y' + k) = src ! (wrap_u32 (y' * p) + k))"
  using assms
proof (induction w h p src y dst arbitrary: out rule: rgb888_rows.induct)
  case (1 w h p src y dst)
  show ?case
  proof (cases "y < h")
    case False
    then have "out = dst" using "1.prems"(1) by (simp add: rgb888_rows.simps)
    with False show ?thesis by auto
  next
    case True
    define r where "r = 3 * w * y"
    have rr: "wrap_u32 (y * w * 3) = r"
      unfolding r_def using True "1.prems"(2) by (rule row_offset_no_wrap)
    have nxt: "3 * w * (y + 1) = r + 3 * w" by (simp add: r_def algebra_simps)
    from "1.prems"(1) True obtain d1
      where p: "memcpy dst r src (wrap_u32 (y * p)) (w * 3) = Inr d1"
        and r: "rgb888_rows w h p src (y + 1) d1 = Inr out"
      unfolding rr[symmetric]
      by (subst (asm) rgb888_rows.simps) (auto split: sum.splits)
    from "1.IH"[OF True p[unfolded rr[symmetric]] r "1.prems"(2)]
    have len: "length out = length d1"
      and fr: "\<And>i. i < r + 3 * w \<Longrightarrow> out ! i = d1 ! i"
      and vals: "\<And>y' k. y + 1 \<le> y' \<Longrightarrow> y' < h \<Longrightarrow> k < 3 * w \<Longrightarrow>
        wrap_u32 (y' * p) + 3 * w \<le> length src \<and> 3 * w * y' + 3 * w \<le> length d1 \<and>
        out ! (3 * w * y' + k) = src ! (wrap_u32 (y' * p) + k)"
      unfolding nxt by blast+
    show ?thesis
    proof (cases "w = 0")
      case True
      then have "d1 = dst" using p by (simp add: memcpy_zero)
      with len fr vals True show ?thesis by (auto simp: r_def)
    next
      case False
      then have n: "0 < w * 3" by simp
      note m = memcpy_Inr[OF p n]
      have A: "length out = length dst" using len m(3) by simp
      have B: "out ! i = dst ! i" if "i < 3 * w * y" for i
        using that fr[of i] m(4)[of i] by (simp add: r_def)
      have C: "wrap_u32 (y' * p) + 3 * w \<le> length src \<and> 3 * w * y' + 3 * w \<le> length dst \<and>
          out ! (3 * w * y' + k) = src ! (wrap_u32 (y' * p) + k)"
        if "y \<le> y'" "y' < h" "k < 3 * w" for y' k
      proof (cases "y' = y")
        case True
        have "out ! (r + k) = d1 ! (r + k)" using that(3) by (intro fr) linarith
        moreover have "d1 ! (r + k) = src ! (wrap_u32 (y * p) + k)"
          using that(3) by (intro m(5)) (simp add: mult.commute)
        ultimately show ?thesis using m(1,2) True by (simp add: r_def mult.commute)
      next
        case False
        then have "y + 1 \<le> y'" using that(1) by simp
        from vals[OF this that(2,3)] show ?thesis by (simp add: m(3))
      qed
      from A B C show ?thesis by blast
    qed
  qed
qed

lemma convertToRGB_RGB888:
  assumes "format (header f) = RGB888" "convertToRGB f buf = Inr (out, msgs)"
  shows "3 * unat (width (size_hd (header f))) * unat (height (size_hd (header f))) \<le> 2147483647"
    "msgs = []"
    "rgb888_rows (unat (width (size_hd (header f)))) (unat (height (size_hd (header f))))
       (unat (pitch (header f))) (pixels f) 0
       (resize (3 * unat (width (size_hd (header f))) * unat (height (size_hd (header f)))) buf)
     = Inr out"
  using assms
  by (auto simp: convertToRGB_def rgb_size_eq and_then_def Let_def
      split: if_splits sum.splits)

lemma take_drop_eq_nth:
  assumes "a + n \<le> length xs" "b + n \<le> length ys" "\<And>k. k < n \<Longrightarrow> xs ! (a + k) = ys ! (b + k)"
  shows "take n (drop a xs) = take n (drop b ys)"
  using assms by (intro nth_equalityI) auto

lemma yuyv_row_ok:
  assumes "even x" "even w" "row + 2 * w \<le> length src" "rr + 3 * w \<le> length dst"
  shows "\<exists>out. yuyv_row w src row rr x dst = Inr out"
  using assms
proof (induction w src row rr x dst rule: yuyv_row.induct)
  case (1 w src row rr x dst)
  show ?case
  proof (cases "x < w")
    case False
    then show ?thesis by (simp add: yuyv_row.simps)
  next
    case True
    have x2: "x + 2 \<le> w" using True "1.prems"(1,2) by presburger
    then have "row + x * 2 + 3 < length src" "rr + x * 3 + 5 < length dst"
      using "1.prems"(3,4) by simp_all
    then obtain d1 where p: "yuyv_pair src row rr x dst = Inr d1"
      by (simp add: yuyv_pair_eq Let_def)
    have len: "length d1 = length dst" using yuyv_pair_px(3)[OF p "1.prems"(1)] .
    from "1.IH"[OF True p _ "1.prems"(2,3)] "1.prems"(1,4) len
    obtain out where "yuyv_row w src row rr (x + 2) d1 = Inr out" by auto
    then show ?thesis using True p by (subst yuyv_row.simps) simp
  qed
qed

lemma yuyv_rows_ok:
  assumes "even w" "3 * w * h \<le> 4294967296" "3 * w * h \<le> length dst"
    "\<And>y'. y' < h \<Longrightarrow> wrap_u32 (y' * p) + 2 * w \<le> length src"
  shows "\<exists>out. yuyv_rows w h p src y dst = Inr out"
  using assms
proof (induction w h p src y dst rule: yuyv_rows.induct)
  case (1 w h p src y dst)
  show ?case
  proof (cases "y < h")
    case False
    then show ?thesis by (simp add: yuyv_rows.simps)
  next
    case True
    define r where "r = 3 * w * y"
    have rr: "wrap_u32 (y * w * 3) = r"
      unfolding r_def using True "1.prems"(2) by (rule row_offset_no_wrap)
    have "Suc y * w \<le> h * w" using True by (intro mult_le_mono1) simp
    then have "3 * w * y + 3 * w \<le> 3 * w * h" by (simp add: algebra_simps)
    then have fit: "r + 3 * w \<le> length dst" using "1.prems"(3) by (simp add: r_def)
    from yuyv_row_ok[OF _ "1.prems"(1) "1.prems"(4)[OF True] fit, of 0]
    obtain d1 where p: "yuyv_row w src (wrap_u32 (y * p)) r 0 dst = Inr d1" by auto
    have len: "length d1 = length dst" using yuyv_row_Inr[OF p _ "1.prems"(1)] by simp
    from "1.IH"[OF True p[unfolded rr[symmetric]] "1.prems"(1,2) _ "1.prems"(4)] "1.prems"(3) len
    obtain out where "yuyv_rows w h p src (y + 1) d1 = Inr out" by auto
    then show ?thesis using True p unfolding rr[symmetric] by (subst yuyv_rows.simps) simp
  qed
qed

lemma src_row_fits:
  assumes "y < h" "n \<le> p" "p * h \<le> len"
  shows "wrap_u32 (y * p) + n \<le> (len::nat)"
proof -
  have "Suc y * p \<le> h * p" using assms(1) by (intro mult_le_mono1) simp
  then have "y * p + p \<le> p * h" by (simp add: mult.commute)
  moreover have "wrap_u32 (y * p) \<le> y * p" by (rule wrap_u32_le)
  ultimately show ?thesis using assms(2,3) by linarith
qed

lemma take_upd3:
  assumes "i + 2 < length dst"
  shows "take (i + 3) (dst[i := a, i + 1 := b, i + 2 := c]) = take i dst @ [a, b, c]"
proof (intro nth_equalityI)
  show "length (take (i + 3) (dst[i := a, i + 1 := b, i + 2 := c])) = length (take i dst @ [a, b, c])"
    using assms by simp
next
  fix j assume "j < length (take (i + 3) (dst[i := a, i + 1 := b, i + 2 := c]))"
  then have j: "j < i + 3" by simp
  then have "j < i \<or> j = i \<or> j = i + 1 \<or> j = i + 2" by linarith
  then show "take (i + 3) (dst[i := a, i + 1 := b, i + 2 := c]) ! j = (take i dst @ [a, b, c]) ! j"
    using assms by (elim disjE) (simp_all add: nth_append)
qed

lemma put_magenta_eq:
  "i + 2 < length dst \<Longrightarrow> put_magenta dst i = Inr (dst[i := 255, i + 1 := 0, i + 2 := 255])"
  by (simp add: put_magenta_def and_then_def wr_def)

lemma fill_magenta_eq:
  "length dst = i + 3 * n \<Longrightarrow>
     fill_magenta i dst = Inr (take i dst @ concat (replicate n [255, 0, 255]))"
proof (induction n arbitrary: i dst)
  case 0
  then show ?case by (simp add: fill_magenta.simps)
next
  case (Suc n)
  define d1 where "d1 = dst[i := 255, i + 1 := 0, i + 2 := 255]"
  have lt: "i + 2 < length dst" "i < length dst" using Suc.prems by simp_all
  have p: "put_magenta dst i = Inr d1" unfolding d1_def using lt(1) by (rule put_magenta_eq)
  have "length d1 = (i + 3) + 3 * n" using Suc.prems by (simp add: d1_def)
  from Suc.IH[OF this]
  have "fill_magenta (i + 3) d1 = Inr (take (i + 3) d1 @ concat (replicate n [255, 0, 255]))" .
  moreover have "take (i + 3) d1 = take i dst @ [255, 0, 255]"
    unfolding d1_def using lt(1) by (rule take_upd3)
  ultimately have "fill_magenta (i + 3) d1 =
      Inr (take i dst @ concat (replicate (Suc n) [255, 0, 255]))" by simp
  then show ?case using lt(2) p by (subst fill_magenta.simps) simp
qed

lemma convertToRGB_unsupported:
  assumes "fmt \<noteq> RGB888" "fmt \<noteq> YUYV"
  shows "convertToRGB
            \<lparr>header = \<lparr>timestamp = t, pitch = p, size_hd = \<lparr>width = w, height = h\<rparr>,
                       format = fmt\<rparr>,
             pixels = src\<rparr> rgb_data =
         (if 3 * unat w * unat h \<le> 2147483647
          then Inr (concat (replicate (unat w * unat h) [255, 0, 255]),
                    [unsupported_format_warning fmt])
          else Inl SignedOverflow)"
proof -
  have "fill_magenta 0 (resize (3 * unat w * unat h) rgb_data) =
          Inr (concat (replicate (unat w * unat h) [255, 0, 255]))"
    using fill_magenta_eq[of "resize (3 * unat w * unat h) rgb_data" 0 "unat w * unat h"]
    by (simp add: resize_length)
  then show ?thesis
    using assms by (simp add: convertToRGB_def rgb_size_eq and_then_def Let_def)
qed

lemma length_concat_replicate3: "length (concat (replicate n [a, b, c])) = 3 * n"
  by (induction n) simp_all

lemma yuyv_pair_length: "yuyv_pair src row rr x dst = Inr d1 \<Longrightarrow> length d1 = length dst"
  by (auto simp: yuyv_pair_eq Let_def split: if_splits)

lemma yuyv_row_length: "yuyv_row w src row rr x dst = Inr out \<Longrightarrow> length out = length dst"
proof (induction w src row rr x dst arbitrary: out rule: yuyv_row.induct)
  case (1 w src row rr x dst)
  show ?case
  proof (cases "x < w")
    case False
    then show ?thesis using "1.prems" by (simp add: yuyv_row.simps)
  next
    case True
    from "1.prems" True obtain d1 where p: "yuyv_pair src row rr x dst = Inr d1"
      and r: "yuyv_row w src row rr (x + 2) d1 = Inr out"
      by (subst (asm) yuyv_row.simps) (auto split: sum.splits)
    from "1.IH"[OF True p r] yuyv_pair_length[OF p] show ?thesis by simp
  qed
qed

lemma yuyv_rows_length: "yuyv_rows w h p src y dst = Inr out \<Longrightarrow> length out = length dst"
proof (induction w h p src y dst arbitrary: out rule: yuyv_rows.induct)
  case (1 w h p src y dst)
  show ?case
  proof (cases "y < h")
    case False
    then show ?thesis using "1.prems" by (simp add: yuyv_rows.simps)
  next
    case True
    from "1.prems" True obtain d1
      where p: "yuyv_row w src (wrap_u32 (y * p)) (wrap_u32 (y * w * 3)) 0 dst = Inr d1"
        and r: "yuyv_rows w h p src (y + 1) d1 = Inr out"
      by (subst (asm) yuyv_rows.simps) (auto split: sum.splits)
    from "1.IH"[OF True p r] yuyv_row_length[OF p] show ?thesis by simp
  qed
qed

lemma memcpy_length: "memcpy dst d src s n = Inr d1 \<Longrightarrow> length d1 = length dst"
  by (auto simp: memcpy_def split: if_splits)

lemma rgb888_rows_length: "rgb888_rows w h p src y dst = Inr out \<Longrightarrow> length out = length dst"
proof (induction w h p src y dst arbitrary: out rule: rgb888_rows.induct)
  case (1 w h p src y dst)
  show ?case
  proof (cases "y < h")
    case False
    then show ?thesis using "1.prems" by (simp add: rgb888_rows.simps)
  next
    case True
    from "1.prems" True obtain d1
      where p: "memcpy dst (wrap_u32 (y * w * 3)) src (wrap_u32 (y * p)) (w * 3) = Inr d1"
        and r: "rgb888_rows w h p src (y + 1) d1 = Inr out"
      by (subst (asm) rgb888_rows.simps) (auto split: sum.splits)
    from "1.IH"[OF True p r] memcpy_length[OF p] show ?thesis by simp
  qed
qed

lemma rgb888_rows_w0: "rgb888_rows 0 h p src y dst = Inr dst"
proof (induction "h - y" arbitrary: y)
  case 0
  then show ?case by (simp add: rgb888_rows.simps)
next
  case (Suc n)
  then have "y < h" "n = h - (y + 1)" by simp_all
  with Suc.hyps(1)[of "y + 1"] show ?case
    by (subst rgb888_rows.simps) (simp add: memcpy_zero)
qed

lemma yuyv_rows_w0: "yuyv_rows 0 h p src y dst = Inr dst"
proof (induction "h - y" arbitrary: y)
  case 0
  then show ?case by (simp add: yuyv_rows.simps)
next
  case (Suc n)
  then have "y < h" "n = h - (y + 1)" by simp_all
  with Suc.hyps(1)[of "y + 1"] show ?case
    by (subst yuyv_rows.simps) (simp add: yuyv_row.simps)
qed

lemma convertToRGB_degenerate:
  assumes "width (size_hd (header frame)) = 0 \<or> height (size_hd (header frame)) = 0"
  shows "\<exists>msgs. convertToRGB frame rgb_data = Inr ([], msgs)"
proof -
  have z: "3 * unat (width (size_hd (header frame))) * unat (height (size_hd (header frame))) = 0"
    using assms by auto
  have h0: "rgb888_rows w 0 p src 0 [] = Inr []" "yuyv_rows w 0 p src 0 [] = Inr []"
    for w p src
    by (simp_all add: rgb888_rows.simps yuyv_rows.simps)
  have rows: "rgb888_rows (unat (width (size_hd (header frame))))
      (unat (height (size_hd (header frame)))) (unat (pitch (header frame))) (pixels frame) 0 [] = Inr []"
    "yuyv_rows (unat (width (size_hd (header frame))))
      (unat (height (size_hd (header frame)))) (unat (pitch (header frame))) (pixels frame) 0 [] = Inr []"
  proof -
    from assms show "rgb888_rows (unat (width (size_hd (header frame))))
      (unat (height (size_hd (header frame)))) (unat (pitch (header frame))) (pixels frame) 0 [] = Inr []"
    proof
      assume "width (size_hd (header frame)) = 0"
      then show ?thesis by (simp add: rgb888_rows_w0)
    next
      assume "height (size_hd (header frame)) = 0"
      then show ?thesis by (simp add: h0)
    qed
    from assms show "yuyv_rows (unat (width (size_hd (header frame))))
      (unat (height (size_hd (header frame)))) (unat (pitch (header frame))) (pixels frame) 0 [] = Inr []"
    proof
      assume "width (size_hd (header frame)) = 0"
      then show ?thesis by (simp add: yuyv_rows_w0)
    next
      assume "height (size_hd (header frame)) = 0"
      then show ?thesis by (simp add: h0)
    qed
  qed
  show ?thesis
    unfolding convertToRGB_def Let_def rgb_size_eq z
    by (simp add: and_then_def resize_def rows fill_magenta.simps)
qed

lemma vertex_uploads_append:
  "vertex_uploads (cs @ ds) = vertex_uploads cs @ vertex_uploads ds"
  by (simp add: vertex_uploads_def List.map_filter_def)

lemma quad_vertices_length: "length (quad_vertices ops qw qh) = 16"
  by (simp add: quad_vertices_def Let_def)

text \<open>
  A destination that ends inside row \<open>k\<close>: the rows before it are written, and the write
  that leaves the buffer is the fault of the call.
\<close>

lemma yuyv_row_overruns:
  assumes "even x" "even w" "x < w" "row + 2 * w \<le> length src"
    "rr + 3 * x \<le> length dst" "length dst < rr + 3 * w"
  shows "yuyv_row w src row rr x dst = Inl OutOfBoundsWrite"
  using assms
proof (induction w src row rr x dst rule: yuyv_row.induct)
  case (1 w src row rr x dst)
  have x2: "x + 2 \<le> w" using "1.prems"(1,2,3) by presburger
  then have rd_ok: "row + x * 2 + 3 < length src" using "1.prems"(4) by simp
  show ?case
  proof (cases "rr + x * 3 + 5 < length dst")
    case False
    then have "yuyv_pair src row rr x dst = Inl OutOfBoundsWrite"
      using rd_ok by (simp add: yuyv_pair_eq)
    then show ?thesis using "1.prems"(3) by (subst yuyv_row.simps) simp
  next
    case True
    with rd_ok obtain d1 where p: "yuyv_pair src row rr x dst = Inr d1"
      by (simp add: yuyv_pair_eq Let_def)
    have len: "length d1 = length dst" using p by (rule yuyv_pair_length)
    have "x + 2 < w" using True "1.prems"(6) x2 by linarith
    moreover have "rr + 3 * (x + 2) \<le> length d1" using True len by simp
    ultimately have "yuyv_row w src row rr (x + 2) d1 = Inl OutOfBoundsWrite"
      using "1.IH"[OF "1.prems"(3) p] "1.prems"(1,2,4,6) len by simp
    then show ?thesis using "1.prems"(3) p by (subst yuyv_row.simps) simp
  qed
qed

lemma yuyv_rows_overrun:
  assumes "even w" "0 < w" "k < h" "y \<le> k" "3 * w * h \<le> 4294967296 \<or> 3 * w * (k + 1) \<le> 4294967296"
    "3 * w * k \<le> length dst" "length dst < 3 * w * (k + 1)"
    "\<And>y'. y' < h \<Longrightarrow> wrap_u32 (y' * p) + 2 * w \<le> length src"
  shows "yuyv_rows w h p src y dst = Inl OutOfBoundsWrite"
  using assms
proof (induction w h p src y dst rule: yuyv_rows.induct)
  case (1 w h p src y dst)
  have yh: "y < h" using "1.prems"(3,4) by simp
  have fit: "3 * w * (k + 1) \<le> 4294967296"
  proof -
    have "Suc k * w \<le> h * w" using "1.prems"(3) by (intro mult_le_mono1) simp
    then have "3 * w * (k + 1) \<le> 3 * w * h" by (simp add: algebra_simps)
    then show ?thesis using "1.prems"(5) by linarith
  qed
  have yk: "3 * w * y + 3 * w \<le> 3 * w * (k + 1)"
  proof -
    have "Suc y * w \<le> Suc k * w" using "1.prems"(4) by (intro mult_le_mono1) simp
    then show ?thesis by (simp add: algebra_simps)
  qed
  have rr: "wrap_u32 (y * w * 3) = 3 * w * y"
  proof -
    define a where "a = 3 * w * y"
    have "a + 3 * w \<le> 4294967296" using yk fit unfolding a_def by linarith
    then have "a < 4294967296" using "1.prems"(2) by simp
    then have "wrap_u32 a = a" by (rule wrap_u32_id)
    moreover have "y * w * 3 = a" by (simp add: a_def)
    ultimately show ?thesis by (simp only: a_def)
  qed
  show ?case
  proof (cases "y = k")
    case True
    have "yuyv_row w src (wrap_u32 (y * p)) (3 * w * y) 0 dst = Inl OutOfBoundsWrite"
      using "1.prems"(1,2,6,7) "1.prems"(8)[OF yh] True
      by (intro yuyv_row_overruns) (simp_all add: algebra_simps)
    then show ?thesis using yh by (subst yuyv_rows.simps) (simp add: rr)
  next
    case False
    then have lt: "y < k" using "1.prems"(4) by simp
    have "Suc y * w \<le> k * w" using lt by (intro mult_le_mono1) simp
    then have "3 * w * y + 3 * w \<le> 3 * w * k" by (simp add: algebra_simps)
    then have "3 * w * y + 3 * w \<le> length dst" using "1.prems"(6) by simp
    from yuyv_row_ok[OF _ "1.prems"(1) "1.prems"(8)[OF yh] this, of 0]
    obtain d1 where p: "yuyv_row w src (wrap_u32 (y * p)) (3 * w * y) 0 dst = Inr d1" by auto
    have len: "length d1 = length dst" using p by (rule yuyv_row_length)
    have "yuyv_rows w h p src (y + 1) d1 = Inl OutOfBoundsWrite"
      using "1.IH"[OF yh p[folded rr] "1.prems"(1,2,3) _ "1.prems"(5)] lt "1.prems"(6,7,8) len
      by simp
    then show ?thesis using yh p by (subst yuyv_rows.simps) (simp add: rr)
  qed
qed

section \<open>What each branch of the converter computes\<close>

text \<open>
  Packed RGB. When the conversion returns, the output has \<open>width * height * 3\<close> bytes and
  row \<open>y\<close> of it is the \<open>width * 3\<close> bytes of the source at the offset the program
  computes, \<^verbatim>\<open>y * pitch\<close> in 32-bit unsigned arithmetic. That offset is the product itself
  when \<open>pitch * height\<close> does not exceed \<open>2^32\<close>, and with \<open>pitch = width * 3\<close> the output
  is the first \<open>width * height * 3\<close> bytes of the source.
\<close>

lemma rgb888_conversion_values:
  assumes conv: "convertToRGB
            \<lparr>header = \<lparr>timestamp = t, pitch = p, size_hd = \<lparr>width = w, height = h\<rparr>,
                       format = RGB888\<rparr>,
             pixels = src\<rparr> rgb_data = Inr (out, msgs)"
  shows "length out = 3 * unat w * unat h \<and>
         (\<forall>y < unat h. take (3 * unat w) (drop (3 * unat w * y) out) =
                         take (3 * unat w) (drop (wrap_u32 (y * unat p)) src)) \<and>
         (unat p * unat h \<le> 4294967296 \<longrightarrow>
            (\<forall>y < unat h. take (3 * unat w) (drop (3 * unat w * y) out) =
                            take (3 * unat w) (drop (y * unat p) src))) \<and>
         (unat p = 3 * unat w \<longrightarrow> out = take (3 * unat w * unat h) src)"
proof -
  define W where "W = unat w"
  define H where "H = unat h"
  define P where "P = unat p"
  note c = convertToRGB_RGB888[OF _ conv, simplified, folded W_def H_def P_def]
  have sz: "3 * W * H \<le> 4294967296" using c(1) by simp
  from rgb888_rows_Inr[OF c(3) sz]
  have len: "length out = 3 * W * H"
    and vals: "\<And>y k. y < H \<Longrightarrow> k < 3 * W \<Longrightarrow>
        wrap_u32 (y * P) + 3 * W \<le> length src \<and> 3 * W * y + 3 * W \<le> 3 * W * H \<and>
        out ! (3 * W * y + k) = src ! (wrap_u32 (y * P) + k)"
    by (auto simp: resize_length)
  have rows: "take (3 * W) (drop (3 * W * y) out) = take (3 * W) (drop (wrap_u32 (y * P)) src)"
    if "y < H" for y
  proof (cases "W = 0")
    case True then show ?thesis by simp
  next
    case False
    then have "0 < 3 * W" by simp
    from vals[OF that this] have "wrap_u32 (y * P) + 3 * W \<le> length src"
      "3 * W * y + 3 * W \<le> length out" by (simp_all add: len)
    then show ?thesis using vals[OF that] by (intro take_drop_eq_nth) auto
  qed
  have nowrap: "wrap_u32 (y * P) = y * P" if "P * H \<le> 4294967296" "y < H" for y
  proof -
    have "Suc y * P \<le> H * P" using that(2) by (intro mult_le_mono1) simp
    then have "y * P + P \<le> P * H" by (simp add: mult.commute)
    then show ?thesis using that(1)
      by (cases "P = 0") (simp_all add: wrap_u32_id wrap_u32_def)
  qed
  have whole: "out = take (3 * W * H) src" if eq: "P = 3 * W"
  proof (cases "W = 0 \<or> H = 0")
    case True
    then show ?thesis using len by auto
  next
    case False
    then have W: "0 < 3 * W" and Hp: "0 < H" by auto
    have ph: "P * H \<le> 4294967296" using sz eq by simp
    have srclen: "3 * W * H \<le> length src"
    proof -
      from vals[OF _ W, of "H - 1"] Hp have "wrap_u32 ((H - 1) * P) + 3 * W \<le> length src" by simp
      moreover have "wrap_u32 ((H - 1) * P) = (H - 1) * P" using Hp by (intro nowrap[OF ph]) simp
      moreover have "(H - 1) * P + 3 * W = 3 * W * H"
        using Hp by (cases H) (simp_all add: eq algebra_simps)
      ultimately show ?thesis by simp
    qed
    show ?thesis
    proof (intro nth_equalityI)
      show "length out = length (take (3 * W * H) src)" using len srclen by simp
    next
      fix i assume "i < length out"
      then have i: "i < 3 * W * H" by (simp add: len)
      define y where "y = i div (3 * W)"
      define k where "k = i mod (3 * W)"
      have ik: "i = 3 * W * y + k" by (simp add: y_def k_def)
      have k: "k < 3 * W" using W by (simp add: k_def)
      have y: "y < H"
      proof -
        have "i < H * (3 * W)" using i by (simp add: mult.commute mult.left_commute)
        then show ?thesis unfolding y_def using W by (simp add: less_mult_imp_div_less)
      qed
      have "out ! (3 * W * y + k) = src ! (wrap_u32 (y * P) + k)" using vals[OF y k] by simp
      moreover have "wrap_u32 (y * P) = 3 * W * y" using nowrap[OF ph y] by (simp add: eq mult.commute)
      ultimately show "out ! i = take (3 * W * H) src ! i" using i by (simp add: ik[symmetric])
    qed
  qed
  show ?thesis
    unfolding W_def[symmetric] H_def[symmetric] P_def[symmetric]
    using len rows nowrap whole by auto
qed

text \<open>
  Packed RGB with a pitch of at least \<open>width * 3\<close>, a source of at least \<open>pitch * height\<close>
  bytes and \<open>width * height * 3\<close> at most \<open>2^31 - 1\<close>: every row copy is in bounds and the
  conversion returns.
\<close>

lemma rgb888_rows_ok:
  assumes "3 * w * h \<le> 4294967296" "3 * w * h \<le> length dst"
    "\<And>y'. y' < h \<Longrightarrow> wrap_u32 (y' * p) + 3 * w \<le> length src"
  shows "\<exists>out. rgb888_rows w h p src y dst = Inr out"
  using assms
proof (induction w h p src y dst rule: rgb888_rows.induct)
  case (1 w h p src y dst)
  show ?case
  proof (cases "y < h")
    case False
    then show ?thesis by (simp add: rgb888_rows.simps)
  next
    case True
    define r where "r = 3 * w * y"
    have rr: "wrap_u32 (y * w * 3) = r"
      unfolding r_def using True "1.prems"(1) by (rule row_offset_no_wrap)
    have "Suc y * w \<le> h * w" using True by (intro mult_le_mono1) simp
    then have "3 * w * y + 3 * w \<le> 3 * w * h" by (simp add: algebra_simps)
    then have fit: "r + w * 3 \<le> length dst" using "1.prems"(2) by (simp add: r_def)
    have "wrap_u32 (y * p) + w * 3 \<le> length src" using "1.prems"(3)[OF True] by simp
    with fit have "\<exists>d1. memcpy dst r src (wrap_u32 (y * p)) (w * 3) = Inr d1"
      by (simp add: memcpy_def)
    then obtain d1 where p: "memcpy dst r src (wrap_u32 (y * p)) (w * 3) = Inr d1" ..
    have len: "length d1 = length dst" using p by (rule memcpy_length)
    from "1.IH"[OF True p[folded rr] "1.prems"(1) _ "1.prems"(3)] "1.prems"(2) len
    obtain out where "rgb888_rows w h p src (y + 1) d1 = Inr out" by auto
    then show ?thesis using True p unfolding rr[symmetric] by (subst rgb888_rows.simps) simp
  qed
qed

lemma rgb888_conversion_returns:
  assumes "3 * unat w \<le> unat p" "unat p * unat h \<le> length src"
    "3 * unat w * unat h \<le> 2147483647"
  shows "\<exists>out. convertToRGB
            \<lparr>header = \<lparr>timestamp = t, pitch = p, size_hd = \<lparr>width = w, height = h\<rparr>,
                       format = RGB888\<rparr>,
             pixels = src\<rparr> rgb_data = Inr (out, [])"
proof -
  define dst where "dst = resize (3 * unat w * unat h) rgb_data"
  have len: "length dst = 3 * unat w * unat h" by (simp add: dst_def resize_length)
  have sz: "3 * unat w * unat h \<le> 4294967296" using assms(3) by simp
  have "\<exists>out. rgb888_rows (unat w) (unat h) (unat p) src 0 dst = Inr out"
    using sz
  proof (rule rgb888_rows_ok)
    show "3 * unat w * unat h \<le> length dst" by (simp add: len)
    show "\<And>y'. y' < unat h \<Longrightarrow> wrap_u32 (y' * unat p) + 3 * unat w \<le> length src"
      by (rule src_row_fits[OF _ assms(1,2)])
  qed
  then obtain out where "rgb888_rows (unat w) (unat h) (unat p) src 0 dst = Inr out" ..
  with assms(3) show ?thesis
    by (simp add: convertToRGB_def rgb_size_eq and_then_def Let_def dst_def)
qed

text \<open>
  Neither the texture upload nor a render pass writes to \<^verbatim>\<open>stderr\<close>.
\<close>

lemma stderr_after_render: "stderr_lines (render ops s g) = stderr_lines g"
  by (simp add: render_def updateQuadForLetterbox_def issue_def Let_def split: prod.splits)

lemma stderr_after_upload: "stderr_lines (uploadTexture s rgb sz g) = stderr_lines g"
  by (simp add: uploadTexture_def issue_def)

text \<open>
  YUYV with an even width, one pair of pixels: the bytes read and the bytes written by a
  conversion that returns.
\<close>

lemma yuyv_conversion_values:
  assumes conv: "convertToRGB
            \<lparr>header = \<lparr>timestamp = t, pitch = p, size_hd = \<lparr>width = w, height = h\<rparr>,
                       format = YUYV\<rparr>,
             pixels = src\<rparr> rgb_data = Inr (out, msgs)"
    and "even (unat w)" and "y < unat h" and "x < unat w" and "even x"
  shows "let row = wrap_u32 (y * unat p);
             y0 = uint (src ! (row + 2 * x));
             u = uint (src ! (row + 2 * x + 1));
             y1 = uint (src ! (row + 2 * x + 2));
             v = uint (src ! (row + 2 * x + 3));
             c0 = y0 - 16; c1 = y1 - 16; d = u - 128; e = v - 128;
             b = 3 * (unat w * y + x)
         in row + 2 * x + 3 < length src \<and>
            length out = 3 * unat w * unat h \<and> b + 5 < length out \<and>
            uint (out ! b) = max 0 (min 255 ((298 * c0 + 409 * e + 128) div 256)) \<and>
            uint (out ! (b + 1)) = max 0 (min 255 ((298 * c0 - 100 * d - 208 * e + 128) div 256)) \<and>
            uint (out ! (b + 2)) = max 0 (min 255 ((298 * c0 + 516 * d + 128) div 256)) \<and>
            uint (out ! (b + 3)) = max 0 (min 255 ((298 * c1 + 409 * e + 128) div 256)) \<and>
            uint (out ! (b + 4)) = max 0 (min 255 ((298 * c1 - 100 * d - 208 * e + 128) div 256)) \<and>
            uint (out ! (b + 5)) = max 0 (min 255 ((298 * c1 + 516 * d + 128) div 256)) \<and>
            (y0 = 235 \<and> u = 128 \<and> v = 128 \<longrightarrow> out ! b = 255 \<and> out ! (b + 1) = 255 \<and> out ! (b + 2) = 255) \<and>
            (y1 = 235 \<and> u = 128 \<and> v = 128 \<longrightarrow> out ! (b + 3) = 255 \<and> out ! (b + 4) = 255 \<and> out ! (b + 5) = 255) \<and>
            (y0 = 16 \<and> u = 128 \<and> v = 128 \<longrightarrow> out ! b = 0 \<and> out ! (b + 1) = 0 \<and> out ! (b + 2) = 0) \<and>
            (y1 = 16 \<and> u = 128 \<and> v = 128 \<longrightarrow> out ! (b + 3) = 0 \<and> out ! (b + 4) = 0 \<and> out ! (b + 5) = 0)"
proof -
  define W where "W = unat w"
  define H where "H = unat h"
  define row where "row = wrap_u32 (y * unat p)"
  define b where "b = 3 * (W * y + x)"
  note c = convertToRGB_YUYV[OF _ conv, simplified, folded W_def H_def]
  have sz: "3 * W * H \<le> 4294967296" using c(1) by simp
  have x1: "x + 1 < W" using assms(2,4,5) unfolding W_def by presburger
  have h4: "4 * (x div 2) = 2 * x" "4 * ((x + 1) div 2) = 2 * x"
    using assms(5) by (auto elim!: evenE)
  from yuyv_rows_Inr[OF c(3) assms(2)[folded W_def] sz]
  have len: "length out = 3 * W * H"
    and vals: "\<And>j k. j < W \<Longrightarrow> k < 3 \<Longrightarrow>
        row + 4 * (j div 2) + 3 < length src \<and> 3 * W * y + 3 * j + k < 3 * W * H \<and>
        out ! (3 * W * y + 3 * j + k) = yuyv_px src row j k"
    using assms(3) unfolding H_def[symmetric] row_def by (auto simp: resize_length)
  have ix: "3 * W * y + 3 * x + k = b + k" "3 * W * y + 3 * (x + 1) + k = b + (3 + k)" for k
    by (simp_all add: b_def algebra_simps)
  have v0: "row + 2 * x + 3 < length src" "b + k < length out"
      "out ! (b + k) = yuyv_px src row x k" if "k < 3" for k
    using vals[OF assms(4)[folded W_def] that, unfolded ix h4] len by simp_all
  have v1: "b + (3 + k) < length out" "out ! (b + (3 + k)) = yuyv_px src row (x + 1) k"
    if "k < 3" for k
    using vals[OF x1 that, unfolded ix h4] len by simp_all
  define y0 where "y0 = uint (src ! (row + 2 * x))"
  define u where "u = uint (src ! (row + 2 * x + 1))"
  define y1 where "y1 = uint (src ! (row + 2 * x + 2))"
  define v where "v = uint (src ! (row + 2 * x + 3))"
  have p0: "yuyv_px src row x k =
      (if k = 0 then red (y0 - 16) (v - 128)
       else if k = 1 then green (y0 - 16) (u - 128) (v - 128)
       else blue (y0 - 16) (u - 128))" for k
    unfolding yuyv_px_def h4 y0_def u_def v_def Let_def by simp
  have p1: "yuyv_px src row (x + 1) k =
      (if k = 0 then red (y1 - 16) (v - 128)
       else if k = 1 then green (y1 - 16) (u - 128) (v - 128)
       else blue (y1 - 16) (u - 128))" for k
    unfolding yuyv_px_def h4 y1_def u_def v_def Let_def by (simp add: add.assoc)
  have o0: "out ! b = red (y0 - 16) (v - 128)"
    using v0(3)[of 0, unfolded p0] by simp
  have o1: "out ! (b + 1) = green (y0 - 16) (u - 128) (v - 128)"
    using v0(3)[of 1, unfolded p0] by simp
  have o2: "out ! (b + 2) = blue (y0 - 16) (u - 128)"
    using v0(3)[of 2, unfolded p0] by simp
  have o3: "out ! (b + 3) = red (y1 - 16) (v - 128)"
    using v1(2)[of 0, unfolded p1] by simp
  have o4: "out ! (b + 4) = green (y1 - 16) (u - 128) (v - 128)"
    using v1(2)[of 1, unfolded p1] by simp
  have o5: "out ! (b + 5) = blue (y1 - 16) (u - 128)"
    using v1(2)[of 2, unfolded p1] by simp
  have white: "red 219 0 = 255" "green 219 0 0 = 255" "blue 219 0 = 255"
    by (simp_all add: red_def green_def blue_def clamp_def drop_bit_eq_div)
  have black: "red 0 0 = 0" "green 0 0 0 = 0" "blue 0 0 = 0"
    by (simp_all add: red_def green_def blue_def clamp_def drop_bit_eq_div)
  have r0: "uint (out ! b) = max 0 (min 255 ((298 * (y0 - 16) + 409 * (v - 128) + 128) div 256))"
    unfolding o0 red_def by (rule uint_clamp_byte)
  have r1: "uint (out ! (b + 1)) =
      max 0 (min 255 ((298 * (y0 - 16) - 100 * (u - 128) - 208 * (v - 128) + 128) div 256))"
    unfolding o1 green_def by (rule uint_clamp_byte)
  have r2: "uint (out ! (b + 2)) = max 0 (min 255 ((298 * (y0 - 16) + 516 * (u - 128) + 128) div 256))"
    unfolding o2 blue_def by (rule uint_clamp_byte)
  have r3: "uint (out ! (b + 3)) = max 0 (min 255 ((298 * (y1 - 16) + 409 * (v - 128) + 128) div 256))"
    unfolding o3 red_def by (rule uint_clamp_byte)
  have r4: "uint (out ! (b + 4)) =
      max 0 (min 255 ((298 * (y1 - 16) - 100 * (u - 128) - 208 * (v - 128) + 128) div 256))"
    unfolding o4 green_def by (rule uint_clamp_byte)
  have r5: "uint (out ! (b + 5)) = max 0 (min 255 ((298 * (y1 - 16) + 516 * (u - 128) + 128) div 256))"
    unfolding o5 blue_def by (rule uint_clamp_byte)
  have w0: "y0 = 235 \<and> u = 128 \<and> v = 128 \<longrightarrow>
      out ! b = 255 \<and> out ! (b + 1) = 255 \<and> out ! (b + 2) = 255"
    unfolding o0 o1 o2 by (auto simp: white)
  have w1: "y1 = 235 \<and> u = 128 \<and> v = 128 \<longrightarrow>
      out ! (b + 3) = 255 \<and> out ! (b + 4) = 255 \<and> out ! (b + 5) = 255"
    unfolding o3 o4 o5 by (auto simp: white)
  have k0: "y0 = 16 \<and> u = 128 \<and> v = 128 \<longrightarrow>
      out ! b = 0 \<and> out ! (b + 1) = 0 \<and> out ! (b + 2) = 0"
    unfolding o0 o1 o2 by (auto simp: black)
  have k1: "y1 = 16 \<and> u = 128 \<and> v = 128 \<longrightarrow>
      out ! (b + 3) = 0 \<and> out ! (b + 4) = 0 \<and> out ! (b + 5) = 0"
    unfolding o3 o4 o5 by (auto simp: black)
  have s0: "row + 2 * x + 3 < length src" using v0(1)[of 0] by simp
  have s1: "b + 5 < length out" using v1(1)[of 2] by simp
  show ?thesis
    unfolding Let_def row_def[symmetric] W_def[symmetric] H_def[symmetric] b_def[symmetric]
      y0_def[symmetric] u_def[symmetric] y1_def[symmetric] v_def[symmetric]
    using s0 s1 len r0 r1 r2 r3 r4 r5 w0 w1 k0 k1 by blast
qed

text \<open>
  YUYV with an even width, a pitch of at least \<open>2 * width\<close> and a source of at least
  \<open>pitch * height\<close> bytes: no byte is read or written out of bounds. The call returns
  unless \<^verbatim>\<open>width * height * 3\<close> overflows.
\<close>

lemma yuyv_conversion_total:
  assumes "even (unat w)" "2 * unat w \<le> unat p" "unat p * unat h \<le> length src"
  shows "if 3 * unat w * unat h \<le> 2147483647
         then \<exists>out. convertToRGB
                 \<lparr>header = \<lparr>timestamp = t, pitch = p, size_hd = \<lparr>width = w, height = h\<rparr>,
                            format = YUYV\<rparr>,
                  pixels = src\<rparr> rgb_data = Inr (out, []) \<and>
                length out = 3 * unat w * unat h
         else convertToRGB
                 \<lparr>header = \<lparr>timestamp = t, pitch = p, size_hd = \<lparr>width = w, height = h\<rparr>,
                            format = YUYV\<rparr>,
                  pixels = src\<rparr> rgb_data = Inl SignedOverflow"
proof (cases "3 * unat w * unat h \<le> 2147483647")
  case False
  then show ?thesis by (simp add: convertToRGB_def rgb_size_eq and_then_def)
next
  case True
  define dst where "dst = resize (3 * unat w * unat h) rgb_data"
  have len: "length dst = 3 * unat w * unat h" by (simp add: dst_def resize_length)
  have sz: "3 * unat w * unat h \<le> 4294967296" using True by simp
  have "\<exists>out. yuyv_rows (unat w) (unat h) (unat p) src 0 dst = Inr out"
    using assms(1) sz
  proof (rule yuyv_rows_ok)
    show "3 * unat w * unat h \<le> length dst" by (simp add: len)
    show "\<And>y'. y' < unat h \<Longrightarrow> wrap_u32 (y' * unat p) + 2 * unat w \<le> length src"
      by (rule src_row_fits[OF _ assms(2,3)])
  qed
  then obtain out where out: "yuyv_rows (unat w) (unat h) (unat p) src 0 dst = Inr out" ..
  have "length out = length dst" using yuyv_rows_Inr[OF out assms(1) sz] by simp
  with out True len show ?thesis
    by (simp add: convertToRGB_def rgb_size_eq and_then_def Let_def YUYV_def RGB888_def dst_def)
qed

lemma yuyv_conversion_returns:
  assumes "even (unat w)" "2 * unat w \<le> unat p" "unat p * unat h \<le> length src"
    "3 * unat w * unat h \<le> 2147483647"
  shows "\<exists>out. convertToRGB
            \<lparr>header = \<lparr>timestamp = t, pitch = p, size_hd = \<lparr>width = w, height = h\<rparr>,
                       format = YUYV\<rparr>,
             pixels = src\<rparr> rgb_data = Inr (out, []) \<and>
           length out = 3 * unat w * unat h"
  using yuyv_conversion_total[OF assms(1,2,3), of t rgb_data] assms(4) by simp

text \<open>
  The conversion as a whole: the call behaves on any buffer as on that buffer resized; a
  call that returns has a buffer of \<open>width * height * 3\<close> bytes and the messages of its
  branch; and the call returns when the size does not overflow and, for the two
  recognised formats, the rows of the frame lie in the source.
\<close>

lemma resize_resize: "resize n (resize n v) = resize n v"
  by (simp add: resize_def)

lemma convertToRGB_resized:
  "convertToRGB
     \<lparr>header = \<lparr>timestamp = t, pitch = p, size_hd = \<lparr>width = w, height = h\<rparr>, format = fmt\<rparr>,
      pixels = src\<rparr> (resize (3 * unat w * unat h) rgb_data) =
   convertToRGB
     \<lparr>header = \<lparr>timestamp = t, pitch = p, size_hd = \<lparr>width = w, height = h\<rparr>, format = fmt\<rparr>,
      pixels = src\<rparr> rgb_data"
  by (simp add: convertToRGB_def rgb_size_eq and_then_def Let_def resize_resize)

lemma convertToRGB_Inr_shape:
  assumes c: "convertToRGB
            \<lparr>header = \<lparr>timestamp = t, pitch = p, size_hd = \<lparr>width = w, height = h\<rparr>,
                       format = fmt\<rparr>,
             pixels = src\<rparr> rgb_data = Inr (out, msgs)"
  shows "length out = 3 * unat w * unat h \<and>
         msgs = (if fmt = RGB888 \<or> fmt = YUYV then [] else [unsupported_format_warning fmt])"
proof -
  consider (rgb) "fmt = RGB888" | (yuyv) "fmt \<noteq> RGB888" "fmt = YUYV"
    | (other) "fmt \<noteq> RGB888" "fmt \<noteq> YUYV" by blast
  then show ?thesis
  proof cases
    case rgb
    from convertToRGB_RGB888[OF _ c] rgb show ?thesis
      by (auto dest!: rgb888_rows_length simp: resize_length)
  next
    case yuyv
    from convertToRGB_YUYV[OF _ c] yuyv show ?thesis
      by (auto dest!: yuyv_rows_length simp: resize_length)
  next
    case other
    from c convertToRGB_unsupported[OF other, of t p w h src rgb_data] other
    show ?thesis by (auto simp: length_concat_replicate3 split: if_splits)
  qed
qed

lemma convertToRGB_returns:
  assumes "3 * unat w * unat h \<le> 2147483647"
    and "fmt = RGB888 \<longrightarrow> 3 * unat w \<le> unat p \<and> unat p * unat h \<le> length src"
    and "fmt = YUYV \<longrightarrow> even (unat w) \<and> 2 * unat w \<le> unat p \<and> unat p * unat h \<le> length src"
  shows "\<exists>out. convertToRGB
            \<lparr>header = \<lparr>timestamp = t, pitch = p, size_hd = \<lparr>width = w, height = h\<rparr>,
                       format = fmt\<rparr>,
             pixels = src\<rparr> rgb_data =
           Inr (out, if fmt = RGB888 \<or> fmt = YUYV then [] else [unsupported_format_warning fmt]) \<and>
           length out = 3 * unat w * unat h"
proof -
  consider (rgb) "fmt = RGB888" | (yuyv) "fmt \<noteq> RGB888" "fmt = YUYV"
    | (other) "fmt \<noteq> RGB888" "fmt \<noteq> YUYV" by blast
  then show ?thesis
  proof cases
    case rgb
    with assms(2) have l: "3 * unat w \<le> unat p" "unat p * unat h \<le> length src" by simp_all
    from rgb888_conversion_returns[OF l assms(1), of t rgb_data]
    obtain out where c: "convertToRGB
            \<lparr>header = \<lparr>timestamp = t, pitch = p, size_hd = \<lparr>width = w, height = h\<rparr>,
                       format = RGB888\<rparr>,
             pixels = src\<rparr> rgb_data = Inr (out, [])" ..
    from convertToRGB_Inr_shape[OF c] c rgb show ?thesis by simp
  next
    case yuyv
    with assms(3) have l: "even (unat w)" "2 * unat w \<le> unat p" "unat p * unat h \<le> length src"
      by simp_all
    from yuyv_conversion_returns[OF l assms(1), of t rgb_data] yuyv show ?thesis by simp
  next
    case other
    from convertToRGB_unsupported[OF other, of t p w h src rgb_data] assms(1) other
    show ?thesis by (simp add: length_concat_replicate3)
  qed
qed

lemma row_offset_exact:
  assumes "p * h \<le> 4294967296" "y < h"
  shows "wrap_u32 (y * p) = y * (p :: nat)"
proof -
  have "Suc y * p \<le> h * p" using assms(2) by (intro mult_le_mono1) simp
  then have "y * p + p \<le> p * h" by (simp add: mult.commute)
  then show ?thesis using assms(1)
    by (cases "p = 0") (simp_all add: wrap_u32_id wrap_u32_def)
qed

section \<open>The claims\<close>

text \<open>Abbreviations and rewrite rules for the closed examples.\<close>

lemmas conv_eval = convertToRGB_def rgb_size_eq and_then_def resize_def RGB888_def YUYV_def
  wrap_u32_def Let_def

abbreviation demo_impl :: "rat Impl" where
  "demo_impl \<equiv>
     \<lparr>window = 5, texture_id = 1,
      current_frame_header =
        \<lparr>timestamp = 0, pitch = 0, size_hd = \<lparr>width = 0, height = 0\<rparr>, format = 0\<rparr>,
      rgb_buffer = [], shader_program = 2, vao = 3, vbo = 4, image_aspect_ratio = 1\<rparr>"

abbreviation demo_world :: "int \<times> int \<Rightarrow> rat world" where
  "demo_world fb \<equiv> \<lparr>framebuffer = fb, calls = [], stderr_lines = []\<rparr>"

text \<open>
  C1, as amended. A YUYV frame of even width whose pitch is at least \<open>2 * width\<close>, whose
  source holds at least \<open>pitch * height\<close> bytes and whose \<open>width * height * 3\<close> is at most
  \<open>2^31 - 1\<close>: the conversion returns a buffer of \<open>width * height * 3\<close> bytes and no message.
  For every row \<open>y\<close> and every even column \<open>x\<close>, the four bytes \<open>Y0, U, Y1, V\<close> at offset
  \<open>2 * x\<close> of the source row lie in the pixel buffer, and the two pixels \<open>x\<close> and \<open>x + 1\<close> of
  output row \<open>y\<close> are the BT.601 values \<open>R = clamp ((298 c + 409 e + 128) >> 8)\<close>,
  \<open>G = clamp ((298 c - 100 d - 208 e + 128) >> 8)\<close>,
  \<open>B = clamp ((298 c + 516 d + 128) >> 8)\<close> with \<open>c = Y - 16\<close> of the pixel's own luma and
  \<open>d = U - 128\<close>, \<open>e = V - 128\<close> shared by the pair. A luma of 235 with both chroma
  bytes 128 gives (255, 255, 255), a luma of 16 gives (0, 0, 0). The source row starts
  where the program puts it, at \<^verbatim>\<open>y * pitch\<close> in 32-bit unsigned arithmetic, which is
  \<open>y * pitch\<close> itself when \<open>pitch * height\<close> is at most \<open>2^32\<close>.
\<close>

theorem yuyv_conversion:
  assumes "even (unat w)" "2 * unat w \<le> unat p" "unat p * unat h \<le> length src"
    "3 * unat w * unat h \<le> 2147483647"
  shows "\<exists>out.
           convertToRGB
             \<lparr>header = \<lparr>timestamp = t, pitch = p, size_hd = \<lparr>width = w, height = h\<rparr>,
                        format = YUYV\<rparr>,
              pixels = src\<rparr> rgb_data = Inr (out, []) \<and>
           length out = 3 * unat w * unat h \<and>
           (\<forall>y x. y < unat h \<and> x < unat w \<and> even x \<longrightarrow>
            (let row = wrap_u32 (y * unat p);
                 y0 = uint (src ! (row + 2 * x));
                 u = uint (src ! (row + 2 * x + 1));
                 y1 = uint (src ! (row + 2 * x + 2));
                 v = uint (src ! (row + 2 * x + 3));
                 c0 = y0 - 16; c1 = y1 - 16; d = u - 128; e = v - 128;
                 b = 3 * (unat w * y + x)
             in (unat p * unat h \<le> 4294967296 \<longrightarrow> row = y * unat p) \<and>
                row + 2 * x + 3 < length src \<and> b + 5 < length out \<and>
                uint (out ! b) = max 0 (min 255 ((298 * c0 + 409 * e + 128) div 256)) \<and>
                uint (out ! (b + 1)) =
                  max 0 (min 255 ((298 * c0 - 100 * d - 208 * e + 128) div 256)) \<and>
                uint (out ! (b + 2)) = max 0 (min 255 ((298 * c0 + 516 * d + 128) div 256)) \<and>
                uint (out ! (b + 3)) = max 0 (min 255 ((298 * c1 + 409 * e + 128) div 256)) \<and>
                uint (out ! (b + 4)) =
                  max 0 (min 255 ((298 * c1 - 100 * d - 208 * e + 128) div 256)) \<and>
                uint (out ! (b + 5)) = max 0 (min 255 ((298 * c1 + 516 * d + 128) div 256)) \<and>
                (y0 = 235 \<and> u = 128 \<and> v = 128 \<longrightarrow>
                   out ! b = 255 \<and> out ! (b + 1) = 255 \<and> out ! (b + 2) = 255) \<and>
                (y1 = 235 \<and> u = 128 \<and> v = 128 \<longrightarrow>
                   out ! (b + 3) = 255 \<and> out ! (b + 4) = 255 \<and> out ! (b + 5) = 255) \<and>
                (y0 = 16 \<and> u = 128 \<and> v = 128 \<longrightarrow>
                   out ! b = 0 \<and> out ! (b + 1) = 0 \<and> out ! (b + 2) = 0) \<and>
                (y1 = 16 \<and> u = 128 \<and> v = 128 \<longrightarrow>
                   out ! (b + 3) = 0 \<and> out ! (b + 4) = 0 \<and> out ! (b + 5) = 0)))"
proof -
  from yuyv_conversion_returns[OF assms, of t rgb_data]
  obtain out where c: "convertToRGB
             \<lparr>header = \<lparr>timestamp = t, pitch = p, size_hd = \<lparr>width = w, height = h\<rparr>,
                        format = YUYV\<rparr>,
              pixels = src\<rparr> rgb_data = Inr (out, [])"
    and len: "length out = 3 * unat w * unat h" by blast
  have "let row = wrap_u32 (y * unat p);
                 y0 = uint (src ! (row + 2 * x));
                 u = uint (src ! (row + 2 * x + 1));
                 y1 = uint (src ! (row + 2 * x + 2));
                 v = uint (src ! (row + 2 * x + 3));
                 c0 = y0 - 16; c1 = y1 - 16; d = u - 128; e = v - 128;
                 b = 3 * (unat w * y + x)
             in (unat p * unat h \<le> 4294967296 \<longrightarrow> row = y * unat p) \<and>
                row + 2 * x + 3 < length src \<and> b + 5 < length out \<and>
                uint (out ! b) = max 0 (min 255 ((298 * c0 + 409 * e + 128) div 256)) \<and>
                uint (out ! (b + 1)) =
                  max 0 (min 255 ((298 * c0 - 100 * d - 208 * e + 128) div 256)) \<and>
                uint (out ! (b + 2)) = max 0 (min 255 ((298 * c0 + 516 * d + 128) div 256)) \<and>
                uint (out ! (b + 3)) = max 0 (min 255 ((298 * c1 + 409 * e + 128) div 256)) \<and>
                uint (out ! (b + 4)) =
                  max 0 (min 255 ((298 * c1 - 100 * d - 208 * e + 128) div 256)) \<and>
                uint (out ! (b + 5)) = max 0 (min 255 ((298 * c1 + 516 * d + 128) div 256)) \<and>
                (y0 = 235 \<and> u = 128 \<and> v = 128 \<longrightarrow>
                   out ! b = 255 \<and> out ! (b + 1) = 255 \<and> out ! (b + 2) = 255) \<and>
                (y1 = 235 \<and> u = 128 \<and> v = 128 \<longrightarrow>
                   out ! (b + 3) = 255 \<and> out ! (b + 4) = 255 \<and> out ! (b + 5) = 255) \<and>
                (y0 = 16 \<and> u = 128 \<and> v = 128 \<longrightarrow>
                   out ! b = 0 \<and> out ! (b + 1) = 0 \<and> out ! (b + 2) = 0) \<and>
                (y1 = 16 \<and> u = 128 \<and> v = 128 \<longrightarrow>
                   out ! (b + 3) = 0 \<and> out ! (b + 4) = 0 \<and> out ! (b + 5) = 0)"
    if yx: "y < unat h \<and> x < unat w \<and> even x" for y x
  proof -
    from yx have y: "y < unat h" and x: "x < unat w" and ex: "even x" by blast+
    have nw: "unat p * unat h \<le> 4294967296 \<longrightarrow> wrap_u32 (y * unat p) = y * unat p"
      using row_offset_exact[OF _ y] by blast
    from yuyv_conversion_values[OF c assms(1) y x ex] nw
    show ?thesis unfolding Let_def by blast
  qed
  with c len show ?thesis by blast
qed

theorem yuyv_conversion_witness:
  "even (unat (4 :: u16)) \<and> 2 * unat (4 :: u16) \<le> unat (8 :: u32) \<and>
   unat (8 :: u32) * unat (1 :: u16) \<le> length [235, 128, 235, 128, 16, 128, 16, 128 :: u8] \<and>
   3 * unat (4 :: u16) * unat (1 :: u16) \<le> 2147483647 \<and>
   convertToRGB
     \<lparr>header = \<lparr>timestamp = 0, pitch = 8, size_hd = \<lparr>width = 4, height = 1\<rparr>,
                format = YUYV\<rparr>,
      pixels = [235, 128, 235, 128, 16, 128, 16, 128]\<rparr> []
     = Inr ([255, 255, 255, 255, 255, 255, 0, 0, 0, 0, 0, 0], []) \<and>
   (0 :: nat) < unat (1 :: u16) \<and> (2 :: nat) < unat (4 :: u16) \<and> even (2 :: nat) \<and>
   wrap_u32 (0 * unat (8 :: u32)) = 0 * unat (8 :: u32) \<and>
   uint ([255, 255, 255, 255, 255, 255, 0, 0, 0, 0, 0, 0 :: u8] ! (3 * (unat (4 :: u16) * 0 + 2) + 3))
     = max 0 (min 255 ((298 * (16 - 16) + 409 * (128 - 128) + 128) div 256))"
proof -
  have conv: "convertToRGB
     \<lparr>header = \<lparr>timestamp = 0, pitch = 8, size_hd = \<lparr>width = 4, height = 1\<rparr>,
                format = YUYV\<rparr>,
      pixels = [235, 128, 235, 128, 16, 128, 16, 128]\<rparr> []
     = Inr ([255, 255, 255, 255, 255, 255, 0, 0, 0, 0, 0, 0], [])"
    by (simp add: conv_eval yuyv_rows.simps yuyv_row.simps yuyv_pair_def rd_def wr_def
        red_def green_def blue_def clamp_def drop_bit_eq_div)
      (simp add: eval_nat_numeral)
  have h: "even (unat (4 :: u16))" "2 * unat (4 :: u16) \<le> unat (8 :: u32)"
    "unat (8 :: u32) * unat (1 :: u16) \<le> length [235, 128, 235, 128, 16, 128, 16, 128 :: u8]"
    "3 * unat (4 :: u16) * unat (1 :: u16) \<le> 2147483647"
    by simp_all
  from yuyv_conversion[OF h, of 0 "[]"] conv
  have "\<forall>y x. y < unat (1 :: u16) \<and> x < unat (4 :: u16) \<and> even x \<longrightarrow>
            (let row = wrap_u32 (y * unat (8 :: u32));
                 y1 = uint ([235, 128, 235, 128, 16, 128, 16, 128 :: u8] ! (row + 2 * x + 2));
                 v = uint ([235, 128, 235, 128, 16, 128, 16, 128 :: u8] ! (row + 2 * x + 3));
                 c1 = y1 - 16; e = v - 128;
                 b = 3 * (unat (4 :: u16) * y + x)
             in uint ([255, 255, 255, 255, 255, 255, 0, 0, 0, 0, 0, 0 :: u8] ! (b + 3)) =
                  max 0 (min 255 ((298 * c1 + 409 * e + 128) div 256)))"
    unfolding Let_def by auto
  from this[rule_format, of 0 2] conv h show ?thesis
    by (simp add: Let_def wrap_u32_def)
qed

text \<open>
  C1 as first stated asks only for an even width. A frame of 65534 by 65534 pixels with a
  pitch of 131068 over a source of \<open>pitch * height\<close> bytes has one, and
  \<^verbatim>\<open>width * height * 3\<close> overflows \<^verbatim>\<open>int\<close>: the conversion returns no buffer, so no
  triple is written. A frame of width 2, height 3 and pitch \<open>2^31\<close> over \<open>3 * 2^31\<close> bytes, 128
  below offset \<open>2^32\<close> and 235 from there on, has one too, and its row 2 starts at \<open>2^32\<close>,
  where \<open>Y0, U, Y1, V\<close> are all 235 and red is 255; the program's offset wraps to 0 and
  every byte of the output is 130, the grey of the bytes 128.
\<close>

theorem yuyv_overflow_and_wrapped_row:
  "even (unat (65534 :: u16)) \<and> 2 * unat (65534 :: u16) \<le> unat (131068 :: u32) \<and>
   unat (131068 :: u32) * unat (65534 :: u16) \<le> length (replicate 8589410312 (16 :: u8)) \<and>
   convertToRGB
     \<lparr>header = \<lparr>timestamp = 0, pitch = 131068, size_hd = \<lparr>width = 65534, height = 65534\<rparr>,
                format = YUYV\<rparr>,
      pixels = replicate 8589410312 16\<rparr> [] = Inl SignedOverflow \<and>
   even (unat (2 :: u16)) \<and> 2 * unat (2 :: u16) \<le> unat (2147483648 :: u32) \<and>
   unat (2147483648 :: u32) * unat (3 :: u16)
     \<le> length (replicate 4294967296 128 @ replicate 2147483648 (235 :: u8)) \<and>
   convertToRGB
     \<lparr>header = \<lparr>timestamp = 0, pitch = 2147483648, size_hd = \<lparr>width = 2, height = 3\<rparr>,
                format = YUYV\<rparr>,
      pixels = replicate 4294967296 128 @ replicate 2147483648 235\<rparr> []
   = Inr ([130, 130, 130, 130, 130, 130, 130, 130, 130, 130, 130, 130,
           130, 130, 130, 130, 130, 130], []) \<and>
   take 4 (drop (2 * 2147483648) (replicate 4294967296 128 @ replicate 2147483648 (235 :: u8)))
   = [235, 235, 235, 235] \<and>
   max 0 (min 255 ((298 * (235 - 16) + 409 * (235 - 128) + 128) div 256)) = (255 :: int)"
proof -
  have a: "convertToRGB
     \<lparr>header = \<lparr>timestamp = 0, pitch = 131068, size_hd = \<lparr>width = 65534, height = 65534\<rparr>,
                format = YUYV\<rparr>,
      pixels = replicate 8589410312 16\<rparr> [] = Inl SignedOverflow"
    by (simp add: convertToRGB_def rgb_size_eq and_then_def)
  have b: "convertToRGB
     \<lparr>header = \<lparr>timestamp = 0, pitch = 2147483648, size_hd = \<lparr>width = 2, height = 3\<rparr>,
                format = YUYV\<rparr>,
      pixels = replicate 4294967296 128 @ replicate 2147483648 235\<rparr> []
   = Inr ([130, 130, 130, 130, 130, 130, 130, 130, 130, 130, 130, 130,
           130, 130, 130, 130, 130, 130], [])"
    by (simp add: conv_eval yuyv_rows.simps yuyv_row.simps yuyv_pair_def rd_def wr_def
        red_def green_def blue_def clamp_def drop_bit_eq_div nth_append)
      (simp add: eval_nat_numeral)
  have c: "take 4 (drop (2 * 2147483648) (replicate 4294967296 128 @ replicate 2147483648 (235 :: u8)))
   = [235, 235, 235, 235]"
    by simp (simp add: eval_nat_numeral)
  from a b c show ?thesis by simp
qed

text \<open>
  C2, as amended. A packed-RGB frame, converted: the output has \<open>width * height * 3\<close> bytes
  and its row \<open>y\<close> is the first \<open>width * 3\<close> bytes of the source from the offset the
  program computes, \<^verbatim>\<open>y * pitch\<close> in 32-bit unsigned arithmetic, so that padding bytes of a
  source row never reach the output. When \<open>pitch * height\<close> is at most \<open>2^32\<close> that offset is
  \<open>y * pitch\<close> itself, and when the pitch is \<open>width * 3\<close> the output is the first
  \<open>width * height * 3\<close> bytes of the source. All this holds of every conversion that
  returns, and the conversion returns whenever the pitch is at least \<open>width * 3\<close>, the
  source holds \<open>pitch * height\<close> bytes and \<open>width * height * 3\<close> is at most \<open>2^31 - 1\<close>.
\<close>

theorem rgb888_conversion:
  "(\<forall>out msgs.
      convertToRGB
        \<lparr>header = \<lparr>timestamp = t, pitch = p, size_hd = \<lparr>width = w, height = h\<rparr>,
                   format = RGB888\<rparr>,
         pixels = src\<rparr> rgb_data = Inr (out, msgs) \<longrightarrow>
      length out = 3 * unat w * unat h \<and>
      (\<forall>y < unat h. take (3 * unat w) (drop (3 * unat w * y) out) =
                      take (3 * unat w) (drop (wrap_u32 (y * unat p)) src)) \<and>
      (unat p * unat h \<le> 4294967296 \<longrightarrow>
         (\<forall>y < unat h. take (3 * unat w) (drop (3 * unat w * y) out) =
                         take (3 * unat w) (drop (y * unat p) src))) \<and>
      (unat p = 3 * unat w \<longrightarrow> out = take (3 * unat w * unat h) src)) \<and>
   (3 * unat w \<le> unat p \<and> unat p * unat h \<le> length src \<and>
    3 * unat w * unat h \<le> 2147483647 \<longrightarrow>
      (\<exists>out. convertToRGB
         \<lparr>header = \<lparr>timestamp = t, pitch = p, size_hd = \<lparr>width = w, height = h\<rparr>,
                    format = RGB888\<rparr>,
          pixels = src\<rparr> rgb_data = Inr (out, [])))"
  using rgb888_conversion_values[of t p w h src rgb_data]
    rgb888_conversion_returns[of w p h src t rgb_data]
  by blast

theorem rgb888_conversion_witness:
  "convertToRGB
     \<lparr>header = \<lparr>timestamp = 0, pitch = 8, size_hd = \<lparr>width = 2, height = 2\<rparr>,
                format = RGB888\<rparr>,
      pixels = [1, 2, 3, 4, 5, 6, 90, 91, 7, 8, 9, 10, 11, 12, 92, 93]\<rparr> []
     = Inr ([1, 2, 3, 4, 5, 6, 7, 8, 9, 10, 11, 12], []) \<and>
   unat (8 :: u32) * unat (2 :: u16) \<le> 4294967296 \<and> (1 :: nat) < unat (2 :: u16) \<and>
   take (3 * unat (2 :: u16)) (drop (3 * unat (2 :: u16) * 1) [1, 2, 3, 4, 5, 6, 7, 8, 9, 10, 11, 12 :: u8])
     = take (3 * unat (2 :: u16))
         (drop (1 * unat (8 :: u32)) [1, 2, 3, 4, 5, 6, 90, 91, 7, 8, 9, 10, 11, 12, 92, 93])"
proof -
  have conv: "convertToRGB
     \<lparr>header = \<lparr>timestamp = 0, pitch = 8, size_hd = \<lparr>width = 2, height = 2\<rparr>,
                format = RGB888\<rparr>,
      pixels = [1, 2, 3, 4, 5, 6, 90, 91, 7, 8, 9, 10, 11, 12, 92, 93]\<rparr> []
     = Inr ([1, 2, 3, 4, 5, 6, 7, 8, 9, 10, 11, 12], [])"
    by (simp add: conv_eval rgb888_rows.simps memcpy_def)
  note r = rgb888_conversion[of 0 8 2 2 "[1, 2, 3, 4, 5, 6, 90, 91, 7, 8, 9, 10, 11, 12, 92, 93]" "[]",
      THEN conjunct1, rule_format, OF conv]
  note rows = r[THEN conjunct2, THEN conjunct2, THEN conjunct1, rule_format, of 1]
  from rows conv show ?thesis by simp
qed

text \<open>
  C2 as first stated puts output row \<open>y\<close> at source offset \<open>y * row_stride\<close> for every frame.
  For a frame of width 1, height 3 and pitch \<open>2^31\<close> over a buffer of \<open>3 * 2^31\<close> bytes, zero
  below offset \<open>2^32\<close> and one from there on, row 2 starts at \<open>2 * 2^31 = 2^32\<close>, where the
  bytes are 1; the program's offset wraps to 0 and it copies zeros.
\<close>

theorem rgb888_row_offset_wraps:
  "convertToRGB
     \<lparr>header = \<lparr>timestamp = 0, pitch = 2147483648, size_hd = \<lparr>width = 1, height = 3\<rparr>,
                format = RGB888\<rparr>,
      pixels = replicate 4294967296 0 @ replicate 2147483648 1\<rparr> []
   = Inr ([0, 0, 0, 0, 0, 0, 0, 0, 0], []) \<and>
   take 3 (drop (2 * 2147483648) (replicate 4294967296 0 @ replicate 2147483648 (1 :: u8)))
   = [1, 1, 1]"
  by (simp add: conv_eval rgb888_rows.simps memcpy_def) (simp add: numeral_3_eq_3)

text \<open>
  C3, as amended. A frame whose format is neither RGB888 nor YUYV and whose
  \<open>width * height * 3\<close> is at most \<open>2^31 - 1\<close>: the conversion returns a buffer of
  \<open>width * height * 3\<close> bytes that repeats the pixel (255, 0, 255), whatever the buffer held
  before, with one line for \<^verbatim>\<open>stderr\<close> that starts with \<open>Warning: \<close> and holds the format
  code in decimal; \<^verbatim>\<open>update\<close> returns, with that buffer as the RGB buffer and that line
  appended to \<^verbatim>\<open>stderr\<close>.
\<close>

theorem unsupported_format_conversion:
  assumes "fmt \<noteq> RGB888" "fmt \<noteq> YUYV" "3 * unat w * unat h \<le> 2147483647"
  shows "convertToRGB
            \<lparr>header = \<lparr>timestamp = t, pitch = p, size_hd = \<lparr>width = w, height = h\<rparr>,
                       format = fmt\<rparr>,
             pixels = src\<rparr> rgb_data =
           Inr (concat (replicate (unat w * unat h) [255, 0, 255]),
                [unsupported_format_warning fmt]) \<and>
         length (concat (replicate (unat w * unat h) [255, 0, 255 :: u8])) =
           3 * unat w * unat h \<and>
         prefix ''Warning: '' (unsupported_format_warning fmt) \<and>
         sublist (decimal (unat fmt)) (unsupported_format_warning fmt) \<and>
         (\<exists>s' g'. update ops
              \<lparr>header = \<lparr>timestamp = t, pitch = p, size_hd = \<lparr>width = w, height = h\<rparr>,
                         format = fmt\<rparr>,
               pixels = src\<rparr> s g = Inr (s', g') \<and>
            rgb_buffer s' = concat (replicate (unat w * unat h) [255, 0, 255]) \<and>
            stderr_lines g' = stderr_lines g @ [unsupported_format_warning fmt])"
proof -
  have c: "convertToRGB
            \<lparr>header = \<lparr>timestamp = t, pitch = p, size_hd = \<lparr>width = w, height = h\<rparr>,
                       format = fmt\<rparr>,
             pixels = src\<rparr> rgb_data =
           Inr (concat (replicate (unat w * unat h) [255, 0, 255]),
                [unsupported_format_warning fmt])" for rgb_data
    using convertToRGB_unsupported[OF assms(1,2), of t p w h src rgb_data] assms(3) by simp
  have "prefix ''Warning: '' (unsupported_format_warning fmt)"
    by (simp add: unsupported_format_warning_def)
  moreover have "sublist (decimal (unat fmt)) (unsupported_format_warning fmt)"
    unfolding unsupported_format_warning_def by (rule sublist_appendI)
  moreover have "\<exists>s' g'. update ops
              \<lparr>header = \<lparr>timestamp = t, pitch = p, size_hd = \<lparr>width = w, height = h\<rparr>,
                         format = fmt\<rparr>,
               pixels = src\<rparr> s g = Inr (s', g') \<and>
            rgb_buffer s' = concat (replicate (unat w * unat h) [255, 0, 255]) \<and>
            stderr_lines g' = stderr_lines g @ [unsupported_format_warning fmt]"
    by (simp add: update_def c and_then_def Let_def stderr_after_render stderr_after_upload)
  ultimately show ?thesis using c[of rgb_data] by (simp add: length_concat_replicate3)
qed

theorem unsupported_format_conversion_witness:
  "(842094158 :: u32) \<noteq> RGB888 \<and> (842094158 :: u32) \<noteq> YUYV \<and>
   3 * unat (2 :: u16) * unat (1 :: u16) \<le> 2147483647 \<and>
   convertToRGB
     \<lparr>header = \<lparr>timestamp = 0, pitch = 4, size_hd = \<lparr>width = 2, height = 1\<rparr>,
                format = 842094158\<rparr>,
      pixels = [0, 0, 0, 0]\<rparr> [7, 7]
   = Inr ([255, 0, 255, 255, 0, 255],
          [''Warning: Unsupported pixel format (842094158), displaying error pattern''])"
proof -
  have ne: "(842094158 :: u32) \<noteq> RGB888" "(842094158 :: u32) \<noteq> YUYV"
    by (simp_all add: RGB888_def YUYV_def)
  have sz: "3 * unat (2 :: u16) * unat (1 :: u16) \<le> 2147483647" by simp
  have w: "unsupported_format_warning 842094158 =
      ''Warning: Unsupported pixel format (842094158), displaying error pattern''"
    by (simp add: unsupported_format_warning_def decimal.simps digit_def)
  have m: "concat (replicate (unat (2 :: u16) * unat (1 :: u16)) [255, 0, 255 :: u8]) =
      [255, 0, 255, 255, 0, 255]"
  proof -
    have "unat (2 :: u16) * unat (1 :: u16) = Suc (Suc 0)" by simp
    then show ?thesis by (simp only: replicate.simps concat.simps append.simps)
  qed
  from unsupported_format_conversion[OF ne sz,
      where t = 0 and p = 4 and src = "[0, 0, 0, 0]" and rgb_data = "[7, 7]"
        and ops = exact_ops and s = demo_impl and g = "demo_world (1280, 720)",
      THEN conjunct1]
  show ?thesis using ne sz unfolding w m by simp
qed

text \<open>
  C3 as first stated has \<^verbatim>\<open>update\<close> complete normally on every frame of an unrecognised
  format. On a frame of 65535 by 65535 pixels whose format is NV12 (842094158), the
  product \<^verbatim>\<open>width * height * 3\<close> overflows \<^verbatim>\<open>int\<close>: neither the conversion nor \<^verbatim>\<open>update\<close>
  returns a result.
\<close>

theorem unsupported_format_size_overflow:
  "convertToRGB
     \<lparr>header = \<lparr>timestamp = 0, pitch = 65535, size_hd = \<lparr>width = 65535, height = 65535\<rparr>,
                format = 842094158\<rparr>,
      pixels = replicate 4294836225 0\<rparr> [] = Inl SignedOverflow \<and>
   update exact_ops
     \<lparr>header = \<lparr>timestamp = 0, pitch = 65535, size_hd = \<lparr>width = 65535, height = 65535\<rparr>,
                format = 842094158\<rparr>,
      pixels = replicate 4294836225 0\<rparr> demo_impl (demo_world (1280, 720)) = Inl SignedOverflow"
  by (simp add: update_def convertToRGB_def rgb_size_eq and_then_def)

text \<open>
  C4, as amended. For a header whose \<open>width * height * 3\<close> is at most \<open>2^31 - 1\<close>: the call
  returns a buffer of exactly \<open>width * height * 3\<close> bytes, whatever the length of the buffer
  passed in, when the format is unrecognised, when it is RGB888 with a pitch of at least
  \<open>width * 3\<close>, and when it is YUYV with an even width and a pitch of at least \<open>2 * width\<close>,
  the source holding at least \<open>pitch * height\<close> bytes in the last two cases. Besides the
  buffer the call returns the lines for \<^verbatim>\<open>stderr\<close>: one warning when the format is
  unrecognised, none when it is recognised. Every call that returns has a buffer of that
  length and those lines, and the call behaves on any buffer as on that buffer resized to
  \<open>width * height * 3\<close> bytes.
\<close>

theorem convert_buffer_size_and_effects:
  assumes "3 * unat w * unat h \<le> 2147483647"
  shows "((fmt = RGB888 \<longrightarrow> 3 * unat w \<le> unat p \<and> unat p * unat h \<le> length src) \<and>
          (fmt = YUYV \<longrightarrow>
             even (unat w) \<and> 2 * unat w \<le> unat p \<and> unat p * unat h \<le> length src) \<longrightarrow>
          (\<exists>out. convertToRGB
                   \<lparr>header = \<lparr>timestamp = t, pitch = p, size_hd = \<lparr>width = w, height = h\<rparr>,
                              format = fmt\<rparr>,
                    pixels = src\<rparr> rgb_data =
                 Inr (out, if fmt = RGB888 \<or> fmt = YUYV then []
                           else [unsupported_format_warning fmt]) \<and>
                 length out = 3 * unat w * unat h)) \<and>
         (\<forall>out msgs.
            convertToRGB
              \<lparr>header = \<lparr>timestamp = t, pitch = p, size_hd = \<lparr>width = w, height = h\<rparr>,
                         format = fmt\<rparr>,
               pixels = src\<rparr> rgb_data = Inr (out, msgs) \<longrightarrow>
            length out = 3 * unat w * unat h \<and>
            msgs = (if fmt = RGB888 \<or> fmt = YUYV then []
                    else [unsupported_format_warning fmt])) \<and>
         convertToRGB
           \<lparr>header = \<lparr>timestamp = t, pitch = p, size_hd = \<lparr>width = w, height = h\<rparr>,
                      format = fmt\<rparr>,
            pixels = src\<rparr> rgb_data =
         convertToRGB
           \<lparr>header = \<lparr>timestamp = t, pitch = p, size_hd = \<lparr>width = w, height = h\<rparr>,
                      format = fmt\<rparr>,
            pixels = src\<rparr> (resize (3 * unat w * unat h) rgb_data) \<and>
         length (resize (3 * unat w * unat h) rgb_data) = 3 * unat w * unat h"
proof (intro conjI allI impI)
  assume "(fmt = RGB888 \<longrightarrow> 3 * unat w \<le> unat p \<and> unat p * unat h \<le> length src) \<and>
          (fmt = YUYV \<longrightarrow>
             even (unat w) \<and> 2 * unat w \<le> unat p \<and> unat p * unat h \<le> length src)"
  then show "\<exists>out. convertToRGB
                   \<lparr>header = \<lparr>timestamp = t, pitch = p, size_hd = \<lparr>width = w, height = h\<rparr>,
                              format = fmt\<rparr>,
                    pixels = src\<rparr> rgb_data =
                 Inr (out, if fmt = RGB888 \<or> fmt = YUYV then []
                           else [unsupported_format_warning fmt]) \<and>
                 length out = 3 * unat w * unat h"
    using convertToRGB_returns[OF assms, of fmt p src t rgb_data] by blast
next
  fix out msgs
  assume c: "convertToRGB
              \<lparr>header = \<lparr>timestamp = t, pitch = p, size_hd = \<lparr>width = w, height = h\<rparr>,
                         format = fmt\<rparr>,
               pixels = src\<rparr> rgb_data = Inr (out, msgs)"
  from convertToRGB_Inr_shape[OF c]
  show "length out = 3 * unat w * unat h"
    and "msgs = (if fmt = RGB888 \<or> fmt = YUYV then [] else [unsupported_format_warning fmt])"
    by simp_all
next
  show "convertToRGB
           \<lparr>header = \<lparr>timestamp = t, pitch = p, size_hd = \<lparr>width = w, height = h\<rparr>,
                      format = fmt\<rparr>,
            pixels = src\<rparr> rgb_data =
         convertToRGB
           \<lparr>header = \<lparr>timestamp = t, pitch = p, size_hd = \<lparr>width = w, height = h\<rparr>,
                      format = fmt\<rparr>,
            pixels = src\<rparr> (resize (3 * unat w * unat h) rgb_data)"
    by (rule convertToRGB_resized[symmetric])
next
  show "length (resize (3 * unat w * unat h) rgb_data) = 3 * unat w * unat h"
    by (rule resize_length)
qed

theorem convert_buffer_size_and_effects_witness:
  "3 * unat (2 :: u16) * unat (1 :: u16) \<le> 2147483647 \<and>
   3 * unat (2 :: u16) \<le> unat (8 :: u32) \<and>
   unat (8 :: u32) * unat (1 :: u16) \<le> length [1, 2, 3, 4, 5, 6, 0, 0 :: u8] \<and>
   convertToRGB
     \<lparr>header = \<lparr>timestamp = 0, pitch = 8, size_hd = \<lparr>width = 2, height = 1\<rparr>,
                format = RGB888\<rparr>,
      pixels = [1, 2, 3, 4, 5, 6, 0, 0]\<rparr> [9, 9, 9, 9, 9, 9, 9, 9]
   = Inr ([1, 2, 3, 4, 5, 6], []) \<and>
   length [1, 2, 3, 4, 5, 6 :: u8] = 3 * unat (2 :: u16) * unat (1 :: u16)"
proof -
  have conv: "convertToRGB
     \<lparr>header = \<lparr>timestamp = 0, pitch = 8, size_hd = \<lparr>width = 2, height = 1\<rparr>,
                format = RGB888\<rparr>,
      pixels = [1, 2, 3, 4, 5, 6, 0, 0]\<rparr> [9, 9, 9, 9, 9, 9, 9, 9]
   = Inr ([1, 2, 3, 4, 5, 6], [])"
    by (simp add: conv_eval rgb888_rows.simps memcpy_def)
  have b: "3 * unat (2 :: u16) * unat (1 :: u16) \<le> 2147483647" by simp
  from convert_buffer_size_and_effects[OF b, of RGB888 8 "[1, 2, 3, 4, 5, 6, 0, 0]" 0
      "[9, 9, 9, 9, 9, 9, 9, 9]", THEN conjunct1] conv
  show ?thesis by (simp add: RGB888_def YUYV_def)
qed

text \<open>
  C4 as first stated covers every width and height up to 65535 and allows no effect but
  the writes into the buffer. For a packed-RGB frame of 65535 by 65535 pixels
  \<^verbatim>\<open>width * height * 3\<close> overflows \<^verbatim>\<open>int\<close> and no buffer is returned; and a frame of one pixel
  in the format NV12 has one more effect, a line on \<^verbatim>\<open>stderr\<close>.
\<close>

theorem convert_size_overflow_and_warning:
  "unat (65535 :: u16) \<le> 65535 \<and> 3 * unat (65535 :: u16) \<le> unat (196605 :: u32) \<and>
   unat (196605 :: u32) * unat (65535 :: u16) \<le> length (replicate 12884508675 (0 :: u8)) \<and>
   convertToRGB
     \<lparr>header = \<lparr>timestamp = 0, pitch = 196605, size_hd = \<lparr>width = 65535, height = 65535\<rparr>,
                format = RGB888\<rparr>,
      pixels = replicate 12884508675 0\<rparr> [] = Inl SignedOverflow \<and>
   convertToRGB
     \<lparr>header = \<lparr>timestamp = 0, pitch = 4, size_hd = \<lparr>width = 1, height = 1\<rparr>,
                format = 842094158\<rparr>,
      pixels = [0, 0, 0, 0]\<rparr> []
   = Inr ([255, 0, 255],
          [''Warning: Unsupported pixel format (842094158), displaying error pattern''])"
proof -
  have a: "convertToRGB
     \<lparr>header = \<lparr>timestamp = 0, pitch = 196605, size_hd = \<lparr>width = 65535, height = 65535\<rparr>,
                format = RGB888\<rparr>,
      pixels = replicate 12884508675 0\<rparr> [] = Inl SignedOverflow"
    by (simp add: convertToRGB_def rgb_size_eq and_then_def)
  have b: "convertToRGB
     \<lparr>header = \<lparr>timestamp = 0, pitch = 4, size_hd = \<lparr>width = 1, height = 1\<rparr>,
                format = 842094158\<rparr>,
      pixels = [0, 0, 0, 0]\<rparr> []
   = Inr ([255, 0, 255],
          [''Warning: Unsupported pixel format (842094158), displaying error pattern''])"
    by (simp add: convertToRGB_unsupported RGB888_def YUYV_def unsupported_format_warning_def
      decimal.simps digit_def)
  from a b show ?thesis by simp
qed

text \<open>
  C6, as amended. \<^verbatim>\<open>update\<close> returns on every frame of zero width or zero height, and on
  every frame whose \<open>width * height * 3\<close> is at most \<open>2^31 - 1\<close> and whose rows lie in the
  source (for RGB888 a pitch of at least \<open>width * 3\<close>, for YUYV an even width and a pitch of
  at least \<open>2 * width\<close>, and a source of at least \<open>pitch * height\<close> bytes). The stored aspect
  ratio is then the quotient of the width and the height, each converted to \<^verbatim>\<open>float\<close>, if
  both are nonzero, and the value stored before otherwise; the header of the frame is the
  current one; the RGB buffer is the converted frame; and the calls made are, in this
  order, the upload of that buffer to the texture and one render pass: viewport and
  clear, the vertex data for the new ratio unless the framebuffer is empty, then the draw
  and the buffer swap.
\<close>

theorem update_aspect_ratio:
  assumes fb: "framebuffer g = (fw, fh)"
    and ok: "w = 0 \<or> h = 0 \<or>
             (3 * unat w * unat h \<le> 2147483647 \<and>
              (fmt = RGB888 \<longrightarrow> 3 * unat w \<le> unat p \<and> unat p * unat h \<le> length src) \<and>
              (fmt = YUYV \<longrightarrow>
                 even (unat w) \<and> 2 * unat w \<le> unat p \<and> unat p * unat h \<le> length src))"
  shows "let frame = \<lparr>header = \<lparr>timestamp = t, pitch = p, size_hd = \<lparr>width = w, height = h\<rparr>,
                                format = fmt\<rparr>,
                      pixels = src\<rparr>;
             ratio = (if w \<noteq> 0 \<and> h \<noteq> 0
                      then fdiv ops (float_of_int ops (uint w)) (float_of_int ops (uint h))
                      else image_aspect_ratio s);
             msgs = (if fmt = RGB888 \<or> fmt = YUYV then [] else [unsupported_format_warning fmt])
         in \<exists>rgb.
              convertToRGB frame (rgb_buffer s) = Inr (rgb, msgs) \<and>
              length rgb = 3 * unat w * unat h \<and>
              update ops frame s g =
                Inr (s\<lparr>rgb_buffer := rgb, image_aspect_ratio := ratio,
                       current_frame_header := header frame\<rparr>,
                     g\<lparr>stderr_lines := stderr_lines g @ msgs,
                       calls := calls g @
                         [GlBindTexture (texture_id s),
                          GlTexImage2D w h rgb,
                          GlBindTexture 0,
                          GlViewport 0 0 fw fh,
                          GlClearColor (float_of_int ops 0) (float_of_int ops 0)
                            (float_of_int ops 0) (float_of_int ops 1),
                          GlClear] @
                         (if fw = 0 \<or> fh = 0 then []
                          else [GlBindBuffer (vbo s),
                                GlBufferSubData 0
                                  (let (qw, qh) = letterbox ops
                                         (fdiv ops (float_of_int ops fw) (float_of_int ops fh))
                                         ratio
                                   in quad_vertices ops qw qh),
                                GlBindBuffer 0]) @
                         [GlUseProgram (shader_program s),
                          GlActiveTexture 0,
                          GlBindTexture (texture_id s),
                          GlBindVertexArray (vao s),
                          GlDrawArrays 0 4,
                          GlBindVertexArray 0,
                          GlfwSwapBuffers (window s)]\<rparr>)"
proof -
  define frame where "frame = \<lparr>header = \<lparr>timestamp = t, pitch = p,
      size_hd = \<lparr>width = w, height = h\<rparr>, format = fmt\<rparr>, pixels = src\<rparr>"
  define msgs where
    "msgs = (if fmt = RGB888 \<or> fmt = YUYV then [] else [unsupported_format_warning fmt])"
  have "\<exists>rgb. convertToRGB frame (rgb_buffer s) = Inr (rgb, msgs) \<and>
      length rgb = 3 * unat w * unat h"
  proof (cases "w = 0 \<or> h = 0")
    case True
    then have "width (size_hd (header frame)) = 0 \<or> height (size_hd (header frame)) = 0"
      by (simp add: frame_def)
    from convertToRGB_degenerate[OF this, of "rgb_buffer s"]
    obtain m where c: "convertToRGB frame (rgb_buffer s) = Inr ([], m)" ..
    from convertToRGB_Inr_shape[OF c[unfolded frame_def]] c show ?thesis
      by (auto simp: msgs_def)
  next
    case False
    with ok have b: "3 * unat w * unat h \<le> 2147483647"
      and r: "fmt = RGB888 \<longrightarrow> 3 * unat w \<le> unat p \<and> unat p * unat h \<le> length src"
      and y: "fmt = YUYV \<longrightarrow>
                 even (unat w) \<and> 2 * unat w \<le> unat p \<and> unat p * unat h \<le> length src"
      by blast+
    from convertToRGB_returns[OF b r y, of t "rgb_buffer s"] show ?thesis
      unfolding frame_def msgs_def by blast
  qed
  then obtain rgb where c: "convertToRGB frame (rgb_buffer s) = Inr (rgb, msgs)"
    and len: "length rgb = 3 * unat w * unat h" by blast
  have hd: "header frame = \<lparr>timestamp = t, pitch = p, size_hd = \<lparr>width = w, height = h\<rparr>,
      format = fmt\<rparr>"
    by (simp add: frame_def)
  have u: "update ops frame s g =
      Inr (s\<lparr>rgb_buffer := rgb,
             image_aspect_ratio :=
               (if w \<noteq> 0 \<and> h \<noteq> 0
                then fdiv ops (float_of_int ops (uint w)) (float_of_int ops (uint h))
                else image_aspect_ratio s),
             current_frame_header := header frame\<rparr>,
           g\<lparr>stderr_lines := stderr_lines g @ msgs,
             calls := calls g @
               [GlBindTexture (texture_id s),
                GlTexImage2D w h rgb,
                GlBindTexture 0,
                GlViewport 0 0 fw fh,
                GlClearColor (float_of_int ops 0) (float_of_int ops 0)
                  (float_of_int ops 0) (float_of_int ops 1),
                GlClear] @
               (if fw = 0 \<or> fh = 0 then []
                else [GlBindBuffer (vbo s),
                      GlBufferSubData 0
                        (let (qw, qh) = letterbox ops
                               (fdiv ops (float_of_int ops fw) (float_of_int ops fh))
                               (if w \<noteq> 0 \<and> h \<noteq> 0
                                then fdiv ops (float_of_int ops (uint w)) (float_of_int ops (uint h))
                                else image_aspect_ratio s)
                         in quad_vertices ops qw qh),
                      GlBindBuffer 0]) @
               [GlUseProgram (shader_program s),
                GlActiveTexture 0,
                GlBindTexture (texture_id s),
                GlBindVertexArray (vao s),
                GlDrawArrays 0 4,
                GlBindVertexArray 0,
                GlfwSwapBuffers (window s)]\<rparr>)"
    using fb
    by (simp add: update_def c and_then_def hd Let_def word_greater_zero_iff uploadTexture_def
        render_def updateQuadForLetterbox_def issue_def split: prod.splits)
  from c len u show ?thesis
    unfolding Let_def frame_def[symmetric] msgs_def[symmetric] by blast
qed

theorem update_aspect_ratio_witness:
  "framebuffer (demo_world (1280, 720)) = (1280, 720) \<and>
   3 * unat (4 :: u16) * unat (1 :: u16) \<le> 2147483647 \<and> even (unat (4 :: u16)) \<and>
   2 * unat (4 :: u16) \<le> unat (8 :: u32) \<and>
   unat (8 :: u32) * unat (1 :: u16) \<le> length [235, 128, 235, 128, 16, 128, 16, 128 :: u8] \<and>
   update exact_ops
     \<lparr>header = \<lparr>timestamp = 7, pitch = 8, size_hd = \<lparr>width = 4, height = 1\<rparr>,
                format = YUYV\<rparr>,
      pixels = [235, 128, 235, 128, 16, 128, 16, 128]\<rparr> demo_impl (demo_world (1280, 720))
   = Inr (demo_impl
            \<lparr>rgb_buffer := [255, 255, 255, 255, 255, 255, 0, 0, 0, 0, 0, 0],
             image_aspect_ratio := 4,
             current_frame_header :=
               \<lparr>timestamp = 7, pitch = 8, size_hd = \<lparr>width = 4, height = 1\<rparr>,
                  format = YUYV\<rparr>\<rparr>,
          \<lparr>framebuffer = (1280, 720),
             calls =
               [GlBindTexture 1,
                GlTexImage2D 4 1 [255, 255, 255, 255, 255, 255, 0, 0, 0, 0, 0, 0],
                GlBindTexture 0,
                GlViewport 0 0 1280 720,
                GlClearColor 0 0 0 1,
                GlClear,
                GlBindBuffer 4,
                GlBufferSubData 0
                  [- 1, 4 / 9, 0, 0, - 1, - (4 / 9), 0, 1, 1, - (4 / 9), 1, 1, 1, 4 / 9, 1, 0],
                GlBindBuffer 0,
                GlUseProgram 2,
                GlActiveTexture 0,
                GlBindTexture 1,
                GlBindVertexArray 3,
                GlDrawArrays 0 4,
                GlBindVertexArray 0,
                GlfwSwapBuffers 5],
             stderr_lines = []\<rparr>)"
proof -
  have conv: "convertToRGB
     \<lparr>header = \<lparr>timestamp = 7, pitch = 8, size_hd = \<lparr>width = 4, height = 1\<rparr>,
                format = YUYV\<rparr>,
      pixels = [235, 128, 235, 128, 16, 128, 16, 128]\<rparr> []
     = Inr ([255, 255, 255, 255, 255, 255, 0, 0, 0, 0, 0, 0], [])"
    by (simp add: conv_eval yuyv_rows.simps yuyv_row.simps yuyv_pair_def rd_def wr_def
        red_def green_def blue_def clamp_def drop_bit_eq_div)
      (simp add: eval_nat_numeral)
  have fb: "framebuffer (demo_world (1280, 720)) = (1280, 720)" by simp
  have ok: "(4 :: u16) = 0 \<or> (1 :: u16) = 0 \<or>
             (3 * unat (4 :: u16) * unat (1 :: u16) \<le> 2147483647 \<and>
              (YUYV = RGB888 \<longrightarrow> 3 * unat (4 :: u16) \<le> unat (8 :: u32) \<and>
                 unat (8 :: u32) * unat (1 :: u16)
                   \<le> length [235, 128, 235, 128, 16, 128, 16, 128 :: u8]) \<and>
              (YUYV = YUYV \<longrightarrow>
                 even (unat (4 :: u16)) \<and> 2 * unat (4 :: u16) \<le> unat (8 :: u32) \<and>
                 unat (8 :: u32) * unat (1 :: u16)
                   \<le> length [235, 128, 235, 128, 16, 128, 16, 128 :: u8]))"
    by (simp add: YUYV_def RGB888_def)
  from update_aspect_ratio[OF fb ok, where t = 7 and ops = exact_ops and s = demo_impl] conv
  show ?thesis
    by (auto simp: Let_def exact_ops_def letterbox_def quad_vertices_def)
qed

text \<open>
  C6 as first stated covers every frame of nonzero width and height. On a packed-RGB
  frame of 30000 by 30000 pixels \<^verbatim>\<open>width * height * 3\<close> overflows \<^verbatim>\<open>int\<close> in the conversion and
  \<^verbatim>\<open>update\<close> returns no state: no aspect ratio is stored.
\<close>

theorem update_size_overflow:
  "(30000 :: u16) \<noteq> 0 \<and> 3 * unat (30000 :: u16) \<le> unat (90000 :: u32) \<and>
   unat (90000 :: u32) * unat (30000 :: u16) \<le> length (replicate 2700000000 (0 :: u8)) \<and>
   update exact_ops
     \<lparr>header = \<lparr>timestamp = 0, pitch = 90000, size_hd = \<lparr>width = 30000, height = 30000\<rparr>,
                format = RGB888\<rparr>,
      pixels = replicate 2700000000 0\<rparr> demo_impl (demo_world (1280, 720)) = Inl SignedOverflow"
  by (simp add: update_def convertToRGB_def rgb_size_eq and_then_def)

text \<open>
  C7, as amended. With a framebuffer of zero width or zero height,
  \<^verbatim>\<open>updateQuadForLetterbox\<close> returns without a call and without a diagnostic, so the vertex
  data stays as it was. The render pass is not skipped: it sets the viewport, clears,
  binds program, texture and vertex array, draws the four vertices and swaps the buffers.
  It writes no vertex data. The next pass with a nonzero framebuffer recomputes the geometry
  and writes it before it draws.
\<close>

theorem render_zero_framebuffer:
  assumes "framebuffer g = (fw, fh)" "fw = 0 \<or> fh = 0"
  shows "updateQuadForLetterbox ops s g = g \<and>
         render ops s g =
           issue [GlViewport 0 0 fw fh,
                  GlClearColor (float_of_int ops 0) (float_of_int ops 0) (float_of_int ops 0)
                    (float_of_int ops 1),
                  GlClear,
                  GlUseProgram (shader_program s),
                  GlActiveTexture 0,
                  GlBindTexture (texture_id s),
                  GlBindVertexArray (vao s),
                  GlDrawArrays 0 4,
                  GlBindVertexArray 0,
                  GlfwSwapBuffers (window s)] g \<and>
         stderr_lines (render ops s g) = stderr_lines g \<and>
         vertex_uploads (calls (render ops s g)) = vertex_uploads (calls g) \<and>
         (\<forall>fw' fh'. fw' \<noteq> 0 \<and> fh' \<noteq> 0 \<longrightarrow>
            render ops s ((render ops s g)\<lparr>framebuffer := (fw', fh')\<rparr>) =
              issue [GlViewport 0 0 fw' fh',
                     GlClearColor (float_of_int ops 0) (float_of_int ops 0) (float_of_int ops 0)
                       (float_of_int ops 1),
                     GlClear,
                     GlBindBuffer (vbo s),
                     GlBufferSubData 0
                       (let (qw, qh) = letterbox ops
                              (fdiv ops (float_of_int ops fw') (float_of_int ops fh'))
                              (image_aspect_ratio s)
                        in quad_vertices ops qw qh),
                     GlBindBuffer 0,
                     GlUseProgram (shader_program s),
                     GlActiveTexture 0,
                     GlBindTexture (texture_id s),
                     GlBindVertexArray (vao s),
                     GlDrawArrays 0 4,
                     GlBindVertexArray 0,
                     GlfwSwapBuffers (window s)]
                ((render ops s g)\<lparr>framebuffer := (fw', fh')\<rparr>))"
  using assms
  by (auto simp: updateQuadForLetterbox_def render_def issue_def Let_def vertex_uploads_def
      List.map_filter_def vertex_data_of_def split: prod.splits)

theorem render_zero_framebuffer_witness:
  "framebuffer (demo_world (0, 720)) = (0, 720) \<and> ((0 :: int) = 0 \<or> (720 :: int) = 0) \<and>
   updateQuadForLetterbox exact_ops demo_impl (demo_world (0, 720)) = demo_world (0, 720) \<and>
   calls (render exact_ops demo_impl (demo_world (0, 720))) =
     [GlViewport 0 0 0 720, GlClearColor 0 0 0 1, GlClear, GlUseProgram 2, GlActiveTexture 0,
      GlBindTexture 1, GlBindVertexArray 3, GlDrawArrays 0 4, GlBindVertexArray 0,
      GlfwSwapBuffers 5] \<and>
   calls (render exact_ops demo_impl
            ((render exact_ops demo_impl (demo_world (0, 720)))\<lparr>framebuffer := (1280, 720)\<rparr>)) =
     [GlViewport 0 0 0 720, GlClearColor 0 0 0 1, GlClear, GlUseProgram 2, GlActiveTexture 0,
      GlBindTexture 1, GlBindVertexArray 3, GlDrawArrays 0 4, GlBindVertexArray 0,
      GlfwSwapBuffers 5,
      GlViewport 0 0 1280 720, GlClearColor 0 0 0 1, GlClear,
      GlBindBuffer 4,
      GlBufferSubData 0 [- (9 / 16), 1, 0, 0, - (9 / 16), - 1, 0, 1,
                         9 / 16, - 1, 1, 1, 9 / 16, 1, 1, 0],
      GlBindBuffer 0,
      GlUseProgram 2, GlActiveTexture 0, GlBindTexture 1, GlBindVertexArray 3,
      GlDrawArrays 0 4, GlBindVertexArray 0, GlfwSwapBuffers 5]"
proof -
  have h: "framebuffer (demo_world (0, 720)) = (0, 720)" "(0 :: int) = 0 \<or> (720 :: int) = 0"
    by simp_all
  note r = render_zero_framebuffer[OF h, of exact_ops demo_impl]
  note nxt = r[THEN conjunct2, THEN conjunct2, THEN conjunct2, THEN conjunct2, rule_format,
      of 1280 720]
  from r nxt show ?thesis
    by (simp add: issue_def exact_ops_def letterbox_def quad_vertices_def)
qed

text \<open>
  The claim as stated has the render pass skip drawing. With a framebuffer of 0 by 0 the
  pass issues the draw call and the buffer swap.
\<close>

theorem render_draws_on_zero_framebuffer:
  "calls (render exact_ops demo_impl (demo_world (0, 0))) =
     [GlViewport 0 0 0 0, GlClearColor 0 0 0 1, GlClear, GlUseProgram 2, GlActiveTexture 0,
      GlBindTexture 1, GlBindVertexArray 3, GlDrawArrays 0 4, GlBindVertexArray 0,
      GlfwSwapBuffers 5]"
  by (simp add: render_def updateQuadForLetterbox_def issue_def exact_ops_def)

text \<open>
  C8. From any state of the handles, \<^verbatim>\<open>cleanup\<close> issues one release per nonzero handle,
  in the order texture, vertex array, vertex buffer, program, window, none for a handle
  that is zero, and then \<^verbatim>\<open>glfwTerminate\<close>. It leaves every handle zero. Run again from
  the state it leaves, it releases nothing: its only call is \<^verbatim>\<open>glfwTerminate\<close>, and the
  state of the object is unchanged.
\<close>

theorem cleanup_releases_allocated_only:
  "cleanup s g = (s', g') \<Longrightarrow>
     calls g' = calls g
        @ (if texture_id s \<noteq> 0 then [GlDeleteTextures (texture_id s)] else [])
        @ (if vao s \<noteq> 0 then [GlDeleteVertexArrays (vao s)] else [])
        @ (if vbo s \<noteq> 0 then [GlDeleteBuffers (vbo s)] else [])
        @ (if shader_program s \<noteq> 0 then [GlDeleteProgram (shader_program s)] else [])
        @ (if window s \<noteq> 0 then [GlfwDestroyWindow (window s)] else [])
        @ [GlfwTerminate]
   \<and> texture_id s' = 0 \<and> vao s' = 0 \<and> vbo s' = 0 \<and> shader_program s' = 0 \<and> window s' = 0
   \<and> cleanup s' g' = (s', g'\<lparr>calls := calls g' @ [GlfwTerminate]\<rparr>)"
  by (auto simp: cleanup_def issue_def Let_def split: if_splits)

theorem cleanup_releases_allocated_only_witness:
  "cleanup (demo_impl\<lparr>window := 0, texture_id := 0, shader_program := 0\<rparr>)
           (demo_world (1280, 720)) =
     (demo_impl\<lparr>window := 0, texture_id := 0, shader_program := 0, vao := 0, vbo := 0\<rparr>,
      \<lparr>framebuffer = (1280, 720),
       calls = [GlDeleteVertexArrays 3, GlDeleteBuffers 4, GlfwTerminate],
       stderr_lines = []\<rparr>) \<and>
   cleanup (demo_impl\<lparr>window := 0, texture_id := 0, shader_program := 0, vao := 0, vbo := 0\<rparr>)
      \<lparr>framebuffer = (1280, 720),
       calls = [GlDeleteVertexArrays 3, GlDeleteBuffers 4, GlfwTerminate],
       stderr_lines = []\<rparr> =
     (demo_impl\<lparr>window := 0, texture_id := 0, shader_program := 0, vao := 0, vbo := 0\<rparr>,
      \<lparr>framebuffer = (1280, 720),
       calls = [GlDeleteVertexArrays 3, GlDeleteBuffers 4, GlfwTerminate, GlfwTerminate],
       stderr_lines = []\<rparr>)"
proof -
  have c: "cleanup (demo_impl\<lparr>window := 0, texture_id := 0, shader_program := 0\<rparr>)
           (demo_world (1280, 720)) =
     (demo_impl\<lparr>window := 0, texture_id := 0, shader_program := 0, vao := 0, vbo := 0\<rparr>,
      \<lparr>framebuffer = (1280, 720),
       calls = [GlDeleteVertexArrays 3, GlDeleteBuffers 4, GlfwTerminate],
       stderr_lines = []\<rparr>)"
    by (simp add: cleanup_def issue_def)
  from cleanup_releases_allocated_only[OF c] c show ?thesis by simp
qed

text \<open>
  C9. The vertex data \<^verbatim>\<open>updateQuadForLetterbox\<close> writes is a function of the framebuffer
  size and the stored aspect ratio alone: nothing for a framebuffer of zero width or
  height, else one array of 16 values. Two calls in a row write the same data twice.
\<close>

theorem letterbox_geometry_deterministic:
  assumes "framebuffer g = (fw, fh)"
  shows "let written =
               (if fw = 0 \<or> fh = 0 then []
                else [let (qw, qh) = letterbox ops
                            (fdiv ops (float_of_int ops fw) (float_of_int ops fh))
                            (image_aspect_ratio s)
                      in quad_vertices ops qw qh]);
             once = updateQuadForLetterbox ops s g;
             twice = updateQuadForLetterbox ops s once
         in vertex_uploads (calls once) = vertex_uploads (calls g) @ written \<and>
            vertex_uploads (calls twice) = vertex_uploads (calls g) @ written @ written \<and>
            (\<forall>v \<in> set written. length v = 16)"
  using assms
  by (auto simp: updateQuadForLetterbox_def issue_def Let_def vertex_uploads_append
      quad_vertices_length vertex_uploads_def List.map_filter_def vertex_data_of_def
      split: prod.splits)

theorem letterbox_geometry_deterministic_witness:
  "framebuffer (demo_world (1280, 720)) = (1280, 720) \<and>
   vertex_uploads (calls (updateQuadForLetterbox exact_ops demo_impl
      (updateQuadForLetterbox exact_ops demo_impl (demo_world (1280, 720))))) =
     [[- (9 / 16), 1, 0, 0, - (9 / 16), - 1, 0, 1, 9 / 16, - 1, 1, 1, 9 / 16, 1, 1, 0],
      [- (9 / 16), 1, 0, 0, - (9 / 16), - 1, 0, 1, 9 / 16, - 1, 1, 1, 9 / 16, 1, 1, 0]]"
  using letterbox_geometry_deterministic[of "demo_world (1280, 720)" 1280 720 exact_ops demo_impl]
  by (simp add: Let_def exact_ops_def letterbox_def quad_vertices_def vertex_uploads_def
      List.map_filter_def)

text \<open>
  C10, as amended. A YUYV frame of even width whose pitch is at least \<open>2 * width\<close>, whose
  source holds at least \<open>pitch * height\<close> bytes and whose \<open>width * height * 3\<close> is at most
  \<open>2^31 - 1\<close>: the conversion returns, so no read or write faulted; the output has
  \<open>width * height * 3\<close> bytes; and for every row \<open>y\<close> and even column \<open>x\<close> the last of the
  four source bytes read and the last of the six output bytes written lie inside their
  buffers.
\<close>

theorem yuyv_access_bounds:
  assumes "even (unat w)" "2 * unat w \<le> unat p" "unat p * unat h \<le> length src"
    "3 * unat w * unat h \<le> 2147483647"
  shows "\<exists>out. convertToRGB
            \<lparr>header = \<lparr>timestamp = t, pitch = p, size_hd = \<lparr>width = w, height = h\<rparr>,
                       format = YUYV\<rparr>,
             pixels = src\<rparr> rgb_data = Inr (out, []) \<and>
           length out = 3 * unat w * unat h \<and>
           (\<forall>y x. y < unat h \<and> x < unat w \<and> even x \<longrightarrow>
              wrap_u32 (y * unat p) + 2 * x + 3 < length src \<and>
              3 * (unat w * y + x) + 5 < length out)"
proof -
  from yuyv_conversion_returns[OF assms, of t rgb_data]
  obtain out where c: "convertToRGB
            \<lparr>header = \<lparr>timestamp = t, pitch = p, size_hd = \<lparr>width = w, height = h\<rparr>,
                       format = YUYV\<rparr>,
             pixels = src\<rparr> rgb_data = Inr (out, [])"
    and len: "length out = 3 * unat w * unat h" by blast
  have "wrap_u32 (y * unat p) + 2 * x + 3 < length src \<and> 3 * (unat w * y + x) + 5 < length out"
    if "y < unat h" "x < unat w" "even x" for y x
    using yuyv_conversion_values[OF c assms(1) that] by (simp add: Let_def)
  with c len show ?thesis by blast
qed

theorem yuyv_access_bounds_witness:
  "even (unat (4 :: u16)) \<and> 2 * unat (4 :: u16) \<le> unat (8 :: u32) \<and>
   unat (8 :: u32) * unat (1 :: u16) \<le> length [235, 128, 235, 128, 16, 128, 16, 128 :: u8] \<and>
   3 * unat (4 :: u16) * unat (1 :: u16) \<le> 2147483647 \<and>
   (\<exists>out. convertToRGB
      \<lparr>header = \<lparr>timestamp = 0, pitch = 8, size_hd = \<lparr>width = 4, height = 1\<rparr>,
                 format = YUYV\<rparr>,
       pixels = [235, 128, 235, 128, 16, 128, 16, 128]\<rparr> [] = Inr (out, []) \<and>
      length out = 12)"
  using yuyv_access_bounds[of 4 8 1 "[235, 128, 235, 128, 16, 128, 16, 128]" 0 "[]"]
  by auto

text \<open>
  C10 as first stated asks only for an even width, a pitch of at least \<open>2 * width\<close> and a
  source of at least \<open>pitch * height\<close> bytes. A frame of 40000 by 40000 pixels with a pitch
  of 80000 over 3200000000 bytes meets all three, and \<^verbatim>\<open>width * height * 3\<close> overflows
  \<^verbatim>\<open>int\<close>: the buffer is not resized to \<open>width * height * 3\<close> bytes and the call returns no
  result. Where the product wraps, the size is 505032704, and the loop run on a buffer of
  that size writes past its end.
\<close>

theorem yuyv_size_overflow:
  "even (unat (40000 :: u16)) \<and> 2 * unat (40000 :: u16) \<le> unat (80000 :: u32) \<and>
   unat (80000 :: u32) * unat (40000 :: u16) \<le> length (replicate 3200000000 (0 :: u8)) \<and>
   convertToRGB
     \<lparr>header = \<lparr>timestamp = 0, pitch = 80000, size_hd = \<lparr>width = 40000, height = 40000\<rparr>,
                format = YUYV\<rparr>,
      pixels = replicate 3200000000 0\<rparr> [] = Inl SignedOverflow \<and>
   (3 * unat (40000 :: u16) * unat (40000 :: u16)) mod 4294967296 = 505032704 \<and>
   yuyv_rows (unat (40000 :: u16)) (unat (40000 :: u16)) (unat (80000 :: u32))
     (replicate 3200000000 0) 0 (resize 505032704 []) = Inl OutOfBoundsWrite"
proof -
  have "yuyv_rows 40000 40000 80000 (replicate 3200000000 0) 0 (resize 505032704 [])
          = Inl OutOfBoundsWrite"
  proof (rule yuyv_rows_overrun[where k = 4208])
    show "\<And>y'. y' < 40000 \<Longrightarrow>
        wrap_u32 (y' * 80000) + 2 * 40000 \<le> length (replicate 3200000000 (0 :: u8))"
      by (rule src_row_fits[where h = 40000]) simp_all
  qed (simp_all add: resize_length)
  then show ?thesis
    by (simp add: convertToRGB_def rgb_size_eq and_then_def)
qed
end
